theory Spec2Isabelle
  imports Main
begin

section \<open>JavaScript values used by the extractor\<close>

text \<open>
  A thrown JavaScript error object: its \<open>name\<close> (\<open>Error\<close>, \<open>AxiosError\<close>, \<open>ZodError\<close>)
  and its \<open>message\<close>.  \<open>error_to_string\<close> is \<open>Error.prototype.toString\<close>, which the
  template literal in \<open>login\<close>'s catch block applies to the caught error.
\<close>

datatype js_error = JsError (err_name: string) (err_message: string)

definition error_to_string :: "js_error \<Rightarrow> string" where
  "error_to_string e =
     (if err_name e = [] then err_message e
      else if err_message e = [] then err_name e
      else err_name e @ '': '' @ err_message e)"

text \<open>
  The numbers of \<open>extractData\<close>: \<open>maxCompanies\<close> is a non-negative integer, and
  \<open>Math.ceil(maxCompanies / hitsPerPage)\<close> is an integer or, for \<open>0 / 0\<close>, \<open>NaN\<close>.
  Every comparison with \<open>NaN\<close> is false and arithmetic on \<open>NaN\<close> gives \<open>NaN\<close>.
\<close>

datatype num = NaN | Fin int

fun js_lt :: "num \<Rightarrow> num \<Rightarrow> bool" where
  "js_lt (Fin a) (Fin b) = (a < b)"
| "js_lt _ _ = False"

fun js_minus :: "num \<Rightarrow> num \<Rightarrow> num" where
  "js_minus (Fin a) (Fin b) = Fin (a - b)"
| "js_minus _ _ = NaN"

text \<open>
  A property of a JSON object: missing (\<open>undefined\<close> when read), \<open>null\<close>, or a value.
  \<open>or_string\<close> and \<open>or_array\<close> are \<open>x || d\<close> at a string (the empty string is falsy)
  and at an array (every array is truthy).
\<close>

datatype 'a field = Undefined | Null | Value 'a

fun or_string :: "string field \<Rightarrow> string \<Rightarrow> string" where
  "or_string (Value s) d = (if s = [] then d else s)"
| "or_string _ d = d"

fun or_array :: "'a list field \<Rightarrow> 'a list \<Rightarrow> 'a list" where
  "or_array (Value xs) d = xs"
| "or_array _ d = d"

text \<open>
  A value that \<open>JSON.parse\<close> can return.  A JavaScript string is \<open>Json_string\<close>, whether it
  was parsed from a string literal or is a text taken as it came.  (No path of the program
  reads a number, so integers stand for all numbers.)
\<close>

datatype json =
    Json_null
  | Json_bool bool
  | Json_number int
  | Json_string string
  | Json_array "json list"
  | Json_object "(string \<times> json) list"

text \<open>\<open>Array.prototype.slice(a, b)\<close> and \<open>Array.prototype.join(sep)\<close> at non-negative indices.\<close>

definition slice :: "'a list \<Rightarrow> nat \<Rightarrow> nat \<Rightarrow> 'a list" where
  "slice xs a b = take (b - a) (drop a xs)"

fun join :: "string \<Rightarrow> string list \<Rightarrow> string" where
  "join sep [] = []"
| "join sep [x] = x"
| "join sep (x # y # ys) = x @ sep @ join sep (y # ys)"

text \<open>Decimal rendering of a status code, as string concatenation does it.\<close>

definition digit_char :: "nat \<Rightarrow> char" where
  "digit_char d = char_of (48 + d)"

function show_nat :: "nat \<Rightarrow> string" where
  "show_nat n = (if n < 10 then [digit_char n] else show_nat (n div 10) @ [digit_char (n mod 10)])"
  by pat_completeness auto
termination
  by (relation "measure id") auto

section \<open>The data model (the interfaces of the source)\<close>

record algolia_hit =
  company_id :: int

record algolia_result =
  hits :: "algolia_hit list field"
  nbHits :: int

record algolia_response =
  results :: "algolia_result list"

record job =
  j_id :: int
  j_title :: "string field"
  j_department :: "string field"
  j_location :: "string field"
  j_salary_min :: "int field"
  j_salary_max :: "int field"
  j_equity_min :: "int field"
  j_equity_max :: "int field"
  j_pretty_min_experience :: "string field"
  j_pretty_job_type :: "string field"
  j_pretty_role :: "string field"
  j_pretty_salary_range :: "string field"

record founder =
  full_name :: "string field"
  linkedin :: "string field"
  founder_bio :: "string field"

record company =
  c_id :: int
  c_name :: "string field"
  c_website :: "string field"
  c_description :: "string field"
  c_jobs :: "job list field"
  c_team_size :: "int field"
  c_founders :: "founder list field"
  c_primary_vertical :: "string field"
  c_website_display :: "string field"
  c_country :: "string field"

record company_response =
  companies :: "company list field"

record output_job =
  oj_name :: string
  oj_pretty_min_experience :: "string field"
  oj_pretty_job_type :: "string field"
  oj_pretty_role :: "string field"
  oj_pretty_salary_range :: "string field"

record output_company =
  o_name :: string
  o_website :: string
  o_team_size :: "int field"
  o_founders :: "founder list field"
  o_primary_vertical :: "string field"
  o_website_display :: "string field"
  o_country :: "string field"
  o_jobs :: "output_job list"

record yc_session =
  cookies :: string
  csrfToken :: string

section \<open>Configuration (config.ts)\<close>

text \<open>
  \<open>process.env\<close> maps variable names to strings.  \<open>z.string()\<close> accepts every string and
  rejects a missing key; \<open>z.object(...).parse\<close> collects one issue per rejected key, in
  the order of the schema, and throws when there is any.
\<close>

record config =
  YC_USERNAME :: string
  YC_PASSWORD :: string
  ALGOLIA_APP_ID :: string
  ALGOLIA_API_KEY :: string

definition z_string :: "string option \<Rightarrow> string + string" where
  "z_string v = (case v of None \<Rightarrow> Inl ''Required'' | Some s \<Rightarrow> Inr s)"

definition schema_keys :: "string list" where
  "schema_keys = [''YC_USERNAME'', ''YC_PASSWORD'', ''ALGOLIA_APP_ID'', ''ALGOLIA_API_KEY'']"

definition configSchema_parse :: "(string \<rightharpoonup> string) \<Rightarrow> (string \<times> string) list + config" where
  "configSchema_parse env =
     (let issues = concat (map (\<lambda>k. case z_string (env k) of Inl msg \<Rightarrow> [(k, msg)] | Inr _ \<Rightarrow> [])
                               schema_keys)
      in case (z_string (env ''YC_USERNAME''), z_string (env ''YC_PASSWORD''),
               z_string (env ''ALGOLIA_APP_ID''), z_string (env ''ALGOLIA_API_KEY'')) of
           (Inr u, Inr p, Inr a, Inr k) \<Rightarrow>
             Inr \<lparr>YC_USERNAME = u, YC_PASSWORD = p, ALGOLIA_APP_ID = a, ALGOLIA_API_KEY = k\<rparr>
         | _ \<Rightarrow> Inl issues)"

section \<open>The network and the extractor's state\<close>

text \<open>
  What the run does to the outside, in order: the calls of the three private methods that
  reach the network, each HTTP request with the parts of it the code computes, the
  assignment of \<open>this.session\<close>, and each \<open>setTimeout\<close> with its milliseconds.  Console
  output is left out.
\<close>

datatype event =
    Call_login
  | Get_login_page
  | Post_sign_in string string string string
  | Get_companies_page string
  | Set_session yc_session
  | Call_fetchCompanyIds nat nat
  | Post_algolia string string nat nat
  | Call_fetchCompanyDetails "int list"
  | Post_companies_fetch "int list" string string
  | Sleep nat

record extractor =
  session :: "yc_session option"
  trace :: "event list"

definition new_extractor :: extractor where
  "new_extractor = \<lparr>session = None, trace = []\<rparr>"

definition emit :: "event \<Rightarrow> extractor \<Rightarrow> extractor" where
  "emit e s = s\<lparr>trace := trace s @ [e]\<rparr>"

text \<open>
  An HTTP exchange either fails in transit (timeout, connection error: axios rejects with
  that error) or brings a response: status, the \<open>set-cookie\<close> header (absent, or the
  array of its values) and the body.  What is outside the program is a \<open>world\<close>: the
  servers, which answer each request from everything that happened so far (the request
  being the last event of the history they are given), and the JavaScript runtime, of
  which the program uses \<open>JSON.parse\<close> (through axios; \<open>None\<close> where it throws a
  \<open>SyntaxError\<close>) and the message the engine gives the \<open>TypeError\<close> it raises when the
  method named by an expression is called on a value that has no such method.  The pages
  come as body text; the answers of the search index and of the portal's fetch endpoint
  come as the objects their bodies parse to.
\<close>

record 'a response =
  status :: nat
  set_cookie :: "string list option"
  data :: 'a

datatype 'a outcome = Network_failure js_error | Answer "'a response"

record world =
  page_reply :: "event list \<Rightarrow> string outcome"
  algolia_reply :: "event list \<Rightarrow> algolia_response outcome"
  companies_reply :: "event list \<Rightarrow> company_response outcome"
  json_parse :: "string \<Rightarrow> json option"
  type_error_text :: "string \<Rightarrow> json \<Rightarrow> string"

definition default_validateStatus :: "nat \<Rightarrow> bool" where
  "default_validateStatus st = (200 \<le> st \<and> st < 300)"

definition axios_request :: "(nat \<Rightarrow> bool) \<Rightarrow> 'a outcome \<Rightarrow> js_error + 'a response" where
  "axios_request validateStatus out =
     (case out of
        Network_failure err \<Rightarrow> Inl err
      | Answer r \<Rightarrow>
          if validateStatus (status r) then Inr r
          else Inl (JsError ''AxiosError''
                      (''Request failed with status code '' @ show_nat (status r))))"

text \<open>
  The default \<open>transformResponse\<close> of axios, which applies when no \<open>responseType\<close> is
  asked for, as in every request of \<open>login\<close>: a non-empty body is given to
  \<open>JSON.parse\<close>; when that succeeds \<open>response.data\<close> is the parsed value, and when it throws
  the error is dropped and \<open>response.data\<close> is the body text.  An empty body is not parsed.
\<close>

definition transformResponse :: "(string \<Rightarrow> json option) \<Rightarrow> string \<Rightarrow> json" where
  "transformResponse parse body =
     (if body \<noteq> [] then (case parse body of Some v \<Rightarrow> v | None \<Rightarrow> Json_string body)
      else Json_string body)"

definition axios_page_request ::
  "(nat \<Rightarrow> bool) \<Rightarrow> (string \<Rightarrow> json option) \<Rightarrow> string outcome \<Rightarrow> js_error + json response" where
  "axios_page_request validateStatus parse out =
     (case axios_request validateStatus out of
        Inl err \<Rightarrow> Inl err
      | Inr r \<Rightarrow>
          Inr \<lparr>status = status r, set_cookie = set_cookie r,
               data = transformResponse parse (data r)\<rparr>)"

section \<open>Session Authenticator (login)\<close>

text \<open>
  The regular expression \<open>/name="csrf-token" content="([^"]+)"/\<close> of \<open>login\<close>.
  \<open>String.prototype.match\<close> tries the start positions from left to right.  At one
  position the literal text must follow, then the longest non-empty run of characters
  other than the double quote, then a double quote; a shorter run cannot help, since
  the character after it would not be a double quote.  The result is the captured run.
\<close>

definition dquote :: char where
  "dquote = CHR 0x22"

definition csrf_attribute :: string where
  "csrf_attribute = ''name='' @ [dquote] @ ''csrf-token'' @ [dquote] @ '' content='' @ [dquote]"

fun after_prefix :: "string \<Rightarrow> string \<Rightarrow> string option" where
  "after_prefix [] s = Some s"
| "after_prefix (p # ps) [] = None"
| "after_prefix (p # ps) (c # cs) = (if p = c then after_prefix ps cs else None)"

definition csrf_match_here :: "string \<Rightarrow> string option" where
  "csrf_match_here s =
     (case after_prefix csrf_attribute s of
        None \<Rightarrow> None
      | Some rest \<Rightarrow>
          (let tok = takeWhile (\<lambda>c. c \<noteq> dquote) rest
           in if tok \<noteq> [] \<and> dropWhile (\<lambda>c. c \<noteq> dquote) rest \<noteq> [] then Some tok else None))"

fun csrf_match :: "string \<Rightarrow> string option" where
  "csrf_match [] = csrf_match_here []"
| "csrf_match (c # cs) =
     (case csrf_match_here (c # cs) of Some tok \<Rightarrow> Some tok | None \<Rightarrow> csrf_match cs)"

text \<open>\<open>cookie.split(';')[0]\<close>: the text before the first semicolon.\<close>

definition cookie_pair :: "string \<Rightarrow> string" where
  "cookie_pair cookie = takeWhile (\<lambda>c. c \<noteq> CHR '';'') cookie"

definition sign_in_validateStatus :: "nat \<Rightarrow> bool" where
  "sign_in_validateStatus st = (st < 400 \<or> st = 302)"

text \<open>
  \<open>response.data.match(/name="csrf-token" content="([^"]+)"/)\<close>: on a string the match of
  the pattern; on any other value \<open>match\<close> is not a method (or the value is \<open>null\<close>) and
  the call raises a \<open>TypeError\<close>.  The expression is passed along because the engine's
  message quotes it.
\<close>

definition data_match :: "world \<Rightarrow> string \<Rightarrow> json \<Rightarrow> js_error + string option" where
  "data_match w expr d =
     (case d of
        Json_string s \<Rightarrow> Inr (csrf_match s)
      | Json_null \<Rightarrow> Inl (JsError ''TypeError'' (type_error_text w expr d))
      | Json_bool b \<Rightarrow> Inl (JsError ''TypeError'' (type_error_text w expr d))
      | Json_number n \<Rightarrow> Inl (JsError ''TypeError'' (type_error_text w expr d))
      | Json_array vs \<Rightarrow> Inl (JsError ''TypeError'' (type_error_text w expr d))
      | Json_object kvs \<Rightarrow> Inl (JsError ''TypeError'' (type_error_text w expr d)))"

text \<open>The body of \<open>login\<close>'s try block; \<open>login\<close> wraps whatever it throws.\<close>

definition login_try :: "config \<Rightarrow> world \<Rightarrow> extractor \<Rightarrow> (js_error + unit) \<times> extractor" where
  "login_try cfg w s1 =
     (let s2 = emit Get_login_page s1 in
      case axios_page_request default_validateStatus (json_parse w) (page_reply w (trace s2)) of
        Inl err \<Rightarrow> (Inl err, s2)
      | Inr loginPageResponse \<Rightarrow>
          (let initialCookies =
                 (case set_cookie loginPageResponse of
                    None \<Rightarrow> []
                  | Some cs \<Rightarrow> join ''; '' (map cookie_pair cs))
           in case data_match w ''loginPageResponse.data.match'' (data loginPageResponse) of
                Inl err \<Rightarrow> (Inl err, s2)
              | Inr csrfMatch \<Rightarrow>
                  (let csrfToken = (case csrfMatch of Some tok \<Rightarrow> tok | None \<Rightarrow> [])
                   in if csrfToken = []
                      then (Inl (JsError ''Error''
                                   ''Failed to extract CSRF token from login page''), s2)
                      else
                        (let s3 = emit (Post_sign_in (YC_USERNAME cfg) (YC_PASSWORD cfg)
                                          csrfToken initialCookies) s2 in
                         case axios_page_request sign_in_validateStatus (json_parse w)
                                (page_reply w (trace s3)) of
                           Inl err \<Rightarrow> (Inl err, s3)
                         | Inr loginResponse \<Rightarrow>
                             (let allCookies =
                                    (case set_cookie loginPageResponse of
                                       None \<Rightarrow> [] | Some cs \<Rightarrow> cs)
                                    @ (case set_cookie loginResponse of
                                         None \<Rightarrow> [] | Some cs \<Rightarrow> cs);
                                  sessionCookies = join ''; '' (map cookie_pair allCookies);
                                  s4 = emit (Get_companies_page sessionCookies) s3 in
                              case axios_page_request default_validateStatus (json_parse w)
                                     (page_reply w (trace s4)) of
                                Inl err \<Rightarrow> (Inl err, s4)
                              | Inr waasResponse \<Rightarrow>
                                  (case data_match w ''waasResponse.data.match''
                                          (data waasResponse) of
                                     Inl err \<Rightarrow> (Inl err, s4)
                                   | Inr waasCsrfMatch \<Rightarrow>
                                       (let waasCsrfToken =
                                              (case waasCsrfMatch of
                                                 Some tok \<Rightarrow> tok | None \<Rightarrow> []);
                                            finalCookies =
                                              join ''; ''
                                                (map cookie_pair
                                                   (allCookies
                                                    @ (case set_cookie waasResponse of
                                                         None \<Rightarrow> [] | Some cs \<Rightarrow> cs)));
                                            new_session =
                                              \<lparr>cookies = finalCookies,
                                               csrfToken = waasCsrfToken\<rparr>
                                        in (Inr (),
                                            emit (Set_session new_session)
                                              (s4\<lparr>session := Some new_session\<rparr>)))))))))"

definition login :: "config \<Rightarrow> world \<Rightarrow> extractor \<Rightarrow> (js_error + unit) \<times> extractor" where
  "login cfg w s0 =
     (case login_try cfg w (emit Call_login s0) of
        (Inl err, s') \<Rightarrow>
          (Inl (JsError ''Error'' (''Login failed: '' @ error_to_string err)), s')
      | (Inr u, s') \<Rightarrow> (Inr u, s'))"

section \<open>Identifier Discovery (fetchCompanyIds)\<close>

definition fetchCompanyIds ::
  "config \<Rightarrow> world \<Rightarrow> nat \<Rightarrow> nat \<Rightarrow> extractor \<Rightarrow> (js_error + int list) \<times> extractor" where
  "fetchCompanyIds cfg w page hitsPerPage s0 =
     (let s1 = emit (Call_fetchCompanyIds page hitsPerPage) s0;
          s2 = emit (Post_algolia (ALGOLIA_APP_ID cfg) (ALGOLIA_API_KEY cfg) page hitsPerPage) s1
      in case axios_request default_validateStatus (algolia_reply w (trace s2)) of
           Inl err \<Rightarrow> (Inl err, s2)
         | Inr response \<Rightarrow>
             (let companyIds =
                    (case results (data response) of
                       [] \<Rightarrow> []
                     | r # _ \<Rightarrow> map company_id (or_array (hits r) []))
              in (Inr companyIds, s2)))"

section \<open>Record Fetcher (fetchCompanyDetails)\<close>

text \<open>
  After a successful \<open>login\<close> the session is set, so the branch for a missing session
  after the guard (a \<open>TypeError\<close> on reading \<open>csrfToken\<close> of \<open>null\<close>) is never taken; it is
  written out to keep the function total.
\<close>

definition fetchCompanyDetails ::
  "config \<Rightarrow> world \<Rightarrow> int list \<Rightarrow> extractor \<Rightarrow> (js_error + company list) \<times> extractor" where
  "fetchCompanyDetails cfg w companyIds s0 =
     (let s1 = emit (Call_fetchCompanyDetails companyIds) s0 in
      case (if session s1 = None then login cfg w s1 else (Inr (), s1)) of
        (Inl err, s2) \<Rightarrow> (Inl err, s2)
      | (Inr _, s2) \<Rightarrow>
          (case session s2 of
             None \<Rightarrow>
               (Inl (JsError ''TypeError'' ''null is not an object''), s2)
           | Some sess \<Rightarrow>
               (let s3 = emit (Post_companies_fetch companyIds (csrfToken sess) (cookies sess)) s2
                in case axios_request default_validateStatus (companies_reply w (trace s3)) of
                     Inl err \<Rightarrow> (Inl err, s3)
                   | Inr response \<Rightarrow> (Inr (or_array (companies (data response)) []), s3))))"

section \<open>Formatter (formatCompanyData)\<close>

definition formatCompanyData :: "company list \<Rightarrow> output_company list" where
  "formatCompanyData cs =
     map (\<lambda>company.
            \<lparr>o_name = or_string (c_name company) [],
             o_website = or_string (c_website company) [],
             o_team_size = c_team_size company,
             o_founders = Value (or_array (c_founders company) []),
             o_primary_vertical = c_primary_vertical company,
             o_website_display = c_website_display company,
             o_country = c_country company,
             o_jobs =
               map (\<lambda>job.
                      \<lparr>oj_name = or_string (j_title job) [],
                       oj_pretty_min_experience = j_pretty_min_experience job,
                       oj_pretty_job_type = j_pretty_job_type job,
                       oj_pretty_role = j_pretty_role job,
                       oj_pretty_salary_range = j_pretty_salary_range job\<rparr>)
                   (or_array (c_jobs company) [])\<rparr>)
         cs"

section \<open>Orchestrator (extractData)\<close>

text \<open>
  The two \<open>for\<close> loops of \<open>extractData\<close>, each as a function of the loop variable, the
  accumulated list and the extractor.  A rejected \<open>await\<close> leaves the loop with the error.
\<close>

function discovery_loop ::
  "config \<Rightarrow> world \<Rightarrow> nat \<Rightarrow> nat \<Rightarrow> num \<Rightarrow> nat \<Rightarrow> int list \<Rightarrow> extractor
     \<Rightarrow> (js_error + int list) \<times> extractor" where
  "discovery_loop cfg w maxCompanies hitsPerPage numPages page allCompanyIds s =
     (if js_lt (Fin (int page)) numPages \<and> length allCompanyIds < maxCompanies then
        (case fetchCompanyIds cfg w page hitsPerPage s of
           (Inl err, s1) \<Rightarrow> (Inl err, s1)
         | (Inr companyIds, s1) \<Rightarrow>
             discovery_loop cfg w maxCompanies hitsPerPage numPages (page + 1)
               (allCompanyIds @ companyIds)
               (if js_lt (Fin (int page)) (js_minus numPages (Fin 1))
                then emit (Sleep 1000) s1 else s1))
      else (Inr allCompanyIds, s))"
  by pat_completeness auto
termination
proof (relation "measure (\<lambda>(cfg, w, maxCompanies, hitsPerPage, numPages, page, ids, s).
                            case numPages of NaN \<Rightarrow> 0 | Fin n \<Rightarrow> nat n - page)")
  show "wf (measure (\<lambda>(cfg, w, maxCompanies, hitsPerPage, numPages, page, ids, s).
                            case numPages of NaN \<Rightarrow> 0 | Fin n \<Rightarrow> nat n - page))"
    by simp
next
  fix cfg :: config and w :: world and maxCompanies hitsPerPage :: nat and numPages :: num
    and page :: nat and allCompanyIds :: "int list" and s :: extractor
    and x :: "(js_error + int list) \<times> extractor" and x1 :: "js_error + int list"
    and x2 :: extractor and b :: "int list"
  assume "js_lt (Fin (int page)) numPages \<and> length allCompanyIds < maxCompanies"
  then show "((cfg, w, maxCompanies, hitsPerPage, numPages, page + 1, allCompanyIds @ b,
                if js_lt (Fin (int page)) (js_minus numPages (Fin 1))
                then emit (Sleep 1000) x2 else x2),
               cfg, w, maxCompanies, hitsPerPage, numPages, page, allCompanyIds, s)
              \<in> measure (\<lambda>(cfg, w, maxCompanies, hitsPerPage, numPages, page, ids, s).
                            case numPages of NaN \<Rightarrow> 0 | Fin n \<Rightarrow> nat n - page)"
    by (cases numPages) auto
qed

definition batchSize :: nat where
  "batchSize = 20"

function batch_loop ::
  "config \<Rightarrow> world \<Rightarrow> int list \<Rightarrow> nat \<Rightarrow> company list \<Rightarrow> extractor
     \<Rightarrow> (js_error + company list) \<times> extractor" where
  "batch_loop cfg w allCompanyIds i allCompanies s =
     (if i < length allCompanyIds then
        (let batch = slice allCompanyIds i (i + batchSize) in
         case fetchCompanyDetails cfg w batch s of
           (Inl err, s1) \<Rightarrow> (Inl err, s1)
         | (Inr companies', s1) \<Rightarrow>
             batch_loop cfg w allCompanyIds (i + batchSize) (allCompanies @ companies')
               (if i + batchSize < length allCompanyIds then emit (Sleep 2000) s1 else s1))
      else (Inr allCompanies, s))"
  by pat_completeness auto
termination
  by (relation "measure (\<lambda>(cfg, w, ids, i, acc, s). length ids - i)")
     (auto simp: batchSize_def)

text \<open>
  \<open>extractData\<close> up to the truncation \<open>allCompanyIds.slice(0, maxCompanies)\<close>, and
  then the whole of it (the outer catch block logs and rethrows).
  \<open>hitsPerPage = min(maxCompanies, 100)\<close> is 0 only when \<open>maxCompanies\<close> is, so the only
  division by zero is \<open>0 / 0\<close>, which is \<open>NaN\<close>, and \<open>Math.ceil\<close> keeps it.  Otherwise the
  quotient of the two positive integers is rounded up; the double-precision quotient and
  the exact one have the same ceiling for every count up to \<open>2^46\<close>, far above any list
  a run can hold, and the model takes the exact one.
\<close>

definition collect_ids ::
  "config \<Rightarrow> world \<Rightarrow> nat \<Rightarrow> extractor \<Rightarrow> (js_error + int list) \<times> extractor" where
  "collect_ids cfg w maxCompanies s0 =
     (let hitsPerPage = min maxCompanies 100;
          numPages = (if hitsPerPage = 0 then NaN
                      else Fin (int ((maxCompanies + hitsPerPage - 1) div hitsPerPage)))
      in case discovery_loop cfg w maxCompanies hitsPerPage numPages 0 [] s0 of
           (Inl err, s1) \<Rightarrow> (Inl err, s1)
         | (Inr ids, s1) \<Rightarrow> (Inr (slice ids 0 maxCompanies), s1))"

definition extractData ::
  "config \<Rightarrow> world \<Rightarrow> nat \<Rightarrow> extractor \<Rightarrow> (js_error + output_company list) \<times> extractor" where
  "extractData cfg w maxCompanies s0 =
     (case collect_ids cfg w maxCompanies s0 of
        (Inl err, s1) \<Rightarrow> (Inl err, s1)
      | (Inr allCompanyIds, s1) \<Rightarrow>
          if length allCompanyIds = 0 then (Inr [], s1)
          else
            (case batch_loop cfg w allCompanyIds 0 [] s1 of
               (Inl err, s2) \<Rightarrow> (Inl err, s2)
             | (Inr allCompanies, s2) \<Rightarrow> (Inr (formatCompanyData allCompanies), s2)))"

text \<open>The events a run adds to the trace it started with.\<close>

definition run_events :: "config \<Rightarrow> world \<Rightarrow> nat \<Rightarrow> extractor \<Rightarrow> event list" where
  "run_events cfg w maxCompanies s0 =
     drop (length (trace s0)) (trace (snd (extractData cfg w maxCompanies s0)))"

section \<open>Reading a trace\<close>

text \<open>
  The identifier lists handed to the Fetcher, the (page, hitsPerPage) pairs handed to
  Discovery and the values assigned to \<open>this.session\<close>, each in the order of the trace.
\<close>

definition fetcher_calls :: "event list \<Rightarrow> int list list" where
  "fetcher_calls evs =
     concat (map (\<lambda>e. case e of Call_fetchCompanyDetails b \<Rightarrow> [b] | _ \<Rightarrow> []) evs)"

definition discovery_calls :: "event list \<Rightarrow> (nat \<times> nat) list" where
  "discovery_calls evs =
     concat (map (\<lambda>e. case e of Call_fetchCompanyIds p h \<Rightarrow> [(p, h)] | _ \<Rightarrow> []) evs)"

definition session_assignments :: "event list \<Rightarrow> yc_session list" where
  "session_assignments evs =
     concat (map (\<lambda>e. case e of Set_session x \<Rightarrow> [x] | _ \<Rightarrow> []) evs)"

text \<open>
  Three kinds of events: what \<open>login\<close> does after it has been called, what one Fetcher
  invocation does after it has been called, and what the discovery loop does.
\<close>

fun inside_login :: "event \<Rightarrow> bool" where
  "inside_login Get_login_page = True"
| "inside_login (Post_sign_in u p t c) = True"
| "inside_login (Get_companies_page c) = True"
| "inside_login (Set_session x) = True"
| "inside_login _ = False"

fun inside_fetcher :: "event \<Rightarrow> bool" where
  "inside_fetcher (Post_companies_fetch b t c) = True"
| "inside_fetcher Call_login = True"
| "inside_fetcher e = inside_login e"

fun discovery_event :: "event \<Rightarrow> bool" where
  "discovery_event (Call_fetchCompanyIds p h) = True"
| "discovery_event (Post_algolia a k p h) = True"
| "discovery_event (Sleep ms) = True"
| "discovery_event _ = False"

text \<open>
  The pacing of a run: its calls of Discovery and of the Fetcher and its delays, in
  order.  Fetcher calls are paced when consecutive calls are separated by one delay of
  2000 ms and no delay follows the last call; discovery calls are paced when the same holds
  with 1000 ms.  The weaker \<open>pages_paced_or_trailing\<close> allows one more delay of 1000 ms
  after the last discovery call.
\<close>

definition pacing :: "event list \<Rightarrow> event list" where
  "pacing evs =
     filter (\<lambda>e. case e of Call_fetchCompanyIds p h \<Rightarrow> True
                  | Call_fetchCompanyDetails b \<Rightarrow> True
                  | Sleep ms \<Rightarrow> True
                  | _ \<Rightarrow> False) evs"

fun batches_paced :: "event list \<Rightarrow> bool" where
  "batches_paced [] = True"
| "batches_paced [Call_fetchCompanyDetails b] = True"
| "batches_paced (Call_fetchCompanyDetails b # Sleep ms # Call_fetchCompanyDetails b' # es) =
     (ms = 2000 \<and> batches_paced (Call_fetchCompanyDetails b' # es))"
| "batches_paced _ = False"

fun pages_paced :: "event list \<Rightarrow> bool" where
  "pages_paced [] = True"
| "pages_paced [Call_fetchCompanyIds p h] = True"
| "pages_paced (Call_fetchCompanyIds p h # Sleep ms # Call_fetchCompanyIds p' h' # es) =
     (ms = 1000 \<and> pages_paced (Call_fetchCompanyIds p' h' # es))"
| "pages_paced _ = False"

fun pages_paced_or_trailing :: "event list \<Rightarrow> bool" where
  "pages_paced_or_trailing [] = True"
| "pages_paced_or_trailing [Call_fetchCompanyIds p h] = True"
| "pages_paced_or_trailing [Call_fetchCompanyIds p h, Sleep ms] = (ms = 1000)"
| "pages_paced_or_trailing
     (Call_fetchCompanyIds p h # Sleep ms # Call_fetchCompanyIds p' h' # es) =
     (ms = 1000 \<and> pages_paced_or_trailing (Call_fetchCompanyIds p' h' # es))"
| "pages_paced_or_trailing _ = False"

text \<open>The search index honours a page size when no answer brings more identifiers than it.\<close>

definition pageSize_honoured :: "config \<Rightarrow> world \<Rightarrow> nat \<Rightarrow> bool" where
  "pageSize_honoured cfg w h \<longleftrightarrow>
     (\<forall>p s ids s'. fetchCompanyIds cfg w p h s = (Inr ids, s') \<longrightarrow> length ids \<le> h)"

section \<open>Notions of the specification\<close>

text \<open>
  The partition of a list into consecutive batches of \<open>n\<close>: every batch but the last has
  exactly \<open>n\<close> elements, the last has between 1 and \<open>n\<close>.
\<close>

function consecutive_batches :: "nat \<Rightarrow> 'a list \<Rightarrow> 'a list list" where
  "consecutive_batches n xs =
     (if n = 0 \<or> xs = [] then [] else take n xs # consecutive_batches n (drop n xs))"
  by pat_completeness auto
termination
  by (relation "measure (\<lambda>(n, xs). length xs)") auto

text \<open>The positions present on a record: those of its \<open>jobs\<close> array, none when it has no array.\<close>

definition jobs_present :: "company \<Rightarrow> job list" where
  "jobs_present c = (case c_jobs c of Value js \<Rightarrow> js | _ \<Rightarrow> [])"



section \<open>Example inputs\<close>

definition example_config :: config where
  "example_config = \<lparr>YC_USERNAME = ''user'', YC_PASSWORD = ''pw'',
                      ALGOLIA_APP_ID = ''app'', ALGOLIA_API_KEY = ''key''\<rparr>"

definition page_with_token :: "string \<Rightarrow> string" where
  "page_with_token tok = ''<meta '' @ csrf_attribute @ tok @ [dquote] @ ''>''"

definition plain_company :: "int \<Rightarrow> company" where
  "plain_company i =
     \<lparr>c_id = i, c_name = Undefined, c_website = Undefined, c_description = Undefined,
      c_jobs = Undefined, c_team_size = Undefined, c_founders = Undefined,
      c_primary_vertical = Undefined, c_website_display = Undefined, c_country = Undefined\<rparr>"

definition titled_job :: "string \<Rightarrow> job" where
  "titled_job t =
     \<lparr>j_id = 1, j_title = Value t, j_department = Undefined, j_location = Undefined,
      j_salary_min = Undefined, j_salary_max = Undefined, j_equity_min = Undefined,
      j_equity_max = Undefined, j_pretty_min_experience = Undefined,
      j_pretty_job_type = Undefined, j_pretty_role = Undefined,
      j_pretty_salary_range = Undefined\<rparr>"

definition acme :: company where
  "acme = (plain_company 7)
            \<lparr>c_name := Value ''Acme'',
             c_jobs := Value [titled_job ''Engineer'', titled_job ''Designer'']\<rparr>"

definition null_jobs_company :: company where
  "null_jobs_company = (plain_company 8)\<lparr>c_jobs := Null\<rparr>"

text \<open>
  \<open>JSON.stringify\<close> of a text of printable ASCII characters, and the text
  \<open>name="csrf-token" content="abc"\<close>, which holds a token while its string literal, where
  every double quote follows a backslash, holds none.
\<close>

definition json_quote :: "string \<Rightarrow> string" where
  "json_quote t =
     dquote # concat (map (\<lambda>c. if c = dquote \<or> c = CHR 0x5C then [CHR 0x5C, c] else [c]) t)
       @ [dquote]"

definition token_text :: string where
  "token_text = csrf_attribute @ ''abc'' @ [dquote]"

text \<open>
  \<open>JSON.parse\<close> on the bodies that the example worlds send: \<open>123\<close> is a number, the
  literal of \<open>token_text\<close> is that string, and the HTML texts are not JSON.  The
  \<open>TypeError\<close> message is the one of V8.
\<close>

definition example_json_parse :: "string \<Rightarrow> json option" where
  "example_json_parse body =
     (if body = ''123'' then Some (Json_number 123)
      else if body = json_quote token_text then Some (Json_string token_text)
      else None)"

definition example_type_error_text :: "string \<Rightarrow> json \<Rightarrow> string" where
  "example_type_error_text expr v = expr @ '' is not a function''"

text \<open>
  A world whose pages all carry the given body and one cookie, whose search index answers
  page \<open>p\<close> with the identifiers \<open>ids_of_page p\<close> whatever \<open>hitsPerPage\<close> asks for, and
  whose portal answers a batch with one bare record per identifier.
\<close>

definition example_world :: "string \<Rightarrow> (nat \<Rightarrow> int list) \<Rightarrow> world" where
  "example_world html ids_of_page =
     \<lparr>page_reply = (\<lambda>history.
        Answer \<lparr>status = 200, set_cookie = Some [''sid=1; Path=/''], data = html\<rparr>),
      algolia_reply = (\<lambda>history.
        case last history of
          Post_algolia app key page hitsPerPage \<Rightarrow>
            Answer \<lparr>status = 200, set_cookie = None,
                    data = \<lparr>results = [\<lparr>hits = Value (map (\<lambda>i. \<lparr>company_id = i\<rparr>)
                                                          (ids_of_page page)),
                                          nbHits = 0\<rparr>]\<rparr>\<rparr>
        | _ \<Rightarrow> Network_failure (JsError ''AxiosError'' ''Network Error'')),
      companies_reply = (\<lambda>history.
        case last history of
          Post_companies_fetch ids tok cookie \<Rightarrow>
            Answer \<lparr>status = 200, set_cookie = None,
                    data = \<lparr>companies = Value (map plain_company ids)\<rparr>\<rparr>
        | _ \<Rightarrow> Network_failure (JsError ''AxiosError'' ''Network Error'')),
      json_parse = example_json_parse,
      type_error_text = example_type_error_text\<rparr>"

text \<open>The same world with the search index out of reach from the given page on.\<close>

definition offline_from :: "nat \<Rightarrow> world \<Rightarrow> world" where
  "offline_from first_failing w =
     w\<lparr>algolia_reply := (\<lambda>history.
          case last history of
            Post_algolia app key page hitsPerPage \<Rightarrow>
              if first_failing \<le> page
              then Network_failure (JsError ''AxiosError'' ''Network Error'')
              else algolia_reply w history
          | _ \<Rightarrow> algolia_reply w history)\<rparr>"

definition first_45 :: "int list" where
  "first_45 = map int [0 ..< 45]"

definition first_100 :: "int list" where
  "first_100 = map int [0 ..< 100]"

definition second_100 :: "int list" where
  "second_100 = map int [100 ..< 200]"

definition first_150 :: "int list" where
  "first_150 = map int [0 ..< 150]"

definition three_ids :: "nat \<Rightarrow> int list" where
  "three_ids page = (if page = 0 then [1, 2, 3] else [])"

definition forty_five :: "nat \<Rightarrow> int list" where
  "forty_five page = (if page = 0 then first_45 else [])"

definition hundred_per_page :: "nat \<Rightarrow> int list" where
  "hundred_per_page page = (if page = 0 then first_100 else second_100)"

definition all_on_first_page :: "nat \<Rightarrow> int list" where
  "all_on_first_page page = (if page = 0 then first_150 else [])"

definition signed_in_world :: "(nat \<Rightarrow> int list) \<Rightarrow> world" where
  "signed_in_world ids_of_page = example_world (page_with_token ''tok'') ids_of_page"



definition quoted_token_world :: world where
  "quoted_token_world = example_world (json_quote token_text) (\<lambda>page. [])"

definition env_empty_password :: "string \<rightharpoonup> string" where
  "env_empty_password =
     map_of [(''YC_USERNAME'', ''user''), (''YC_PASSWORD'', []),
             (''ALGOLIA_APP_ID'', ''app''), (''ALGOLIA_API_KEY'', ''key'')]"

definition env_missing_key :: "string \<rightharpoonup> string" where
  "env_missing_key =
     map_of [(''YC_USERNAME'', ''user''), (''YC_PASSWORD'', ''pw''),
             (''ALGOLIA_APP_ID'', ''app'')]"

section \<open>Lemmas: traces\<close>

declare discovery_loop.simps [simp del] batch_loop.simps [simp del]
  consecutive_batches.simps [simp del]

lemma trace_emit [simp]: "trace (emit e s) = trace s @ [e]"
  by (simp add: emit_def)

lemma session_emit [simp]: "session (emit e s) = session s"
  by (simp add: emit_def)

lemma fetcher_calls_append [simp]:
  "fetcher_calls (xs @ ys) = fetcher_calls xs @ fetcher_calls ys"
  by (simp add: fetcher_calls_def)

lemma discovery_calls_append [simp]:
  "discovery_calls (xs @ ys) = discovery_calls xs @ discovery_calls ys"
  by (simp add: discovery_calls_def)

lemma session_assignments_append [simp]:
  "session_assignments (xs @ ys) = session_assignments xs @ session_assignments ys"
  by (simp add: session_assignments_def)

lemma fetcher_calls_simps [simp]:
  "fetcher_calls [] = []"
  "fetcher_calls (e # evs)
     = (case e of Call_fetchCompanyDetails b \<Rightarrow> [b] | _ \<Rightarrow> []) @ fetcher_calls evs"
  by (simp_all add: fetcher_calls_def)

lemma discovery_calls_simps [simp]:
  "discovery_calls [] = []"
  "discovery_calls (e # evs)
     = (case e of Call_fetchCompanyIds p h \<Rightarrow> [(p, h)] | _ \<Rightarrow> []) @ discovery_calls evs"
  by (simp_all add: discovery_calls_def)

lemma session_assignments_simps [simp]:
  "session_assignments [] = []"
  "session_assignments (e # evs)
     = (case e of Set_session x \<Rightarrow> [x] | _ \<Rightarrow> []) @ session_assignments evs"
  by (simp_all add: session_assignments_def)

lemma or_array_Nil: "or_array f [] = (case f of Value xs \<Rightarrow> xs | _ \<Rightarrow> [])"
  by (cases f) simp_all

section \<open>Lemmas: consecutive batches\<close>

lemma consecutive_batches_Nil [simp]: "consecutive_batches n [] = []"
  by (simp add: consecutive_batches.simps)

lemma consecutive_batches_step:
  "0 < n \<Longrightarrow> xs \<noteq> [] \<Longrightarrow>
   consecutive_batches n xs = take n xs # consecutive_batches n (drop n xs)"
  by (subst consecutive_batches.simps) simp


lemma consecutive_batches_bounds:
  "b \<in> set (consecutive_batches n xs) \<Longrightarrow> b \<noteq> [] \<and> length b \<le> n"
proof (induction n xs rule: consecutive_batches.induct)
  case (1 n xs)
  show ?case
  proof (cases "n = 0 \<or> xs = []")
    case True
    with "1.prems" show ?thesis
      by (auto simp: consecutive_batches.simps [of 0 xs])
  next
    case False
    with "1.prems" have "b = take n xs \<or> b \<in> set (consecutive_batches n (drop n xs))"
      by (simp add: consecutive_batches_step)
    with False "1.IH" show ?thesis by auto
  qed
qed


section \<open>Lemmas: the token pattern\<close>






section \<open>Lemmas: what each method adds to the trace\<close>

lemma login_try_effect:
  assumes "login_try cfg w s = (r, s')"
  shows "\<exists>evs. trace s' = trace s @ evs \<and> (\<forall>e \<in> set evs. inside_login e) \<and>
           (case r of
              Inl err \<Rightarrow> session s' = session s \<and> session_assignments evs = []
            | Inr u \<Rightarrow> (\<exists>x. session s' = Some x \<and> session_assignments evs = [x]))"
  using assms
  by (auto simp: login_try_def Let_def session_assignments_def
           split: sum.splits option.splits if_splits)

lemma login_effect:
  assumes "login cfg w s = (r, s')"
  shows "\<exists>evs. trace s' = trace s @ Call_login # evs \<and> (\<forall>e \<in> set evs. inside_login e) \<and>
           (case r of
              Inl err \<Rightarrow> session s' = session s \<and> session_assignments evs = []
            | Inr u \<Rightarrow> (\<exists>x. session s' = Some x \<and> session_assignments evs = [x]))"
proof -
  obtain r0 s1 where t: "login_try cfg w (emit Call_login s) = (r0, s1)"
    by (cases "login_try cfg w (emit Call_login s)")
  from login_try_effect [OF t] obtain evs where
    e: "trace s1 = trace (emit Call_login s) @ evs" "\<forall>e \<in> set evs. inside_login e"
       "case r0 of Inl err \<Rightarrow> session s1 = session (emit Call_login s) \<and> session_assignments evs = []
            | Inr u \<Rightarrow> (\<exists>x. session s1 = Some x \<and> session_assignments evs = [x])"
    by blast
  from assms t have "s' = s1" and "isl r = isl r0"
    by (auto simp: login_def split: sum.splits)
  with e show ?thesis
    by (intro exI [of _ evs]) (auto split: sum.splits)
qed

lemma fetchCompanyDetails_with_session:
  assumes "session s = Some x" and "fetchCompanyDetails cfg w b s = (r, s')"
  shows "trace s' = trace s @ [Call_fetchCompanyDetails b,
                               Post_companies_fetch b (csrfToken x) (cookies x)]
         \<and> session s' = Some x"
  using assms
  by (auto simp: fetchCompanyDetails_def Let_def split: sum.splits)

lemma fetchCompanyDetails_without_session:
  assumes "session s = None" and "fetchCompanyDetails cfg w b s = (r, s')"
  shows "\<exists>evs. trace s' = trace s @ Call_fetchCompanyDetails b # Call_login # evs \<and>
           (\<forall>e \<in> set evs. inside_fetcher e \<and> e \<noteq> Call_login) \<and>
           (case r of
              Inl err \<Rightarrow> length (session_assignments evs) \<le> 1
            | Inr cs \<Rightarrow> (\<exists>x. session s' = Some x \<and> session_assignments evs = [x]))"
proof -
  let ?s1 = "emit (Call_fetchCompanyDetails b) s"
  obtain r0 s2 where l: "login cfg w ?s1 = (r0, s2)"
    by (cases "login cfg w ?s1")
  from login_effect [OF l] obtain evs where
    e: "trace s2 = trace ?s1 @ Call_login # evs" "\<forall>e \<in> set evs. inside_login e"
       "case r0 of Inl err \<Rightarrow> session s2 = session ?s1 \<and> session_assignments evs = []
            | Inr u \<Rightarrow> (\<exists>x. session s2 = Some x \<and> session_assignments evs = [x])"
    by blast
  have il: "\<And>e. inside_login e \<Longrightarrow> inside_fetcher e \<and> e \<noteq> Call_login"
    by (case_tac e) simp_all
  show ?thesis
  proof (cases r0)
    case (Inl err)
    with assms l have "s' = s2" "isl r"
      by (auto simp: fetchCompanyDetails_def Let_def)
    with e Inl il show ?thesis
      by (intro exI [of _ evs]) (auto split: sum.splits)
  next
    case (Inr u)
    with e obtain x where x: "session s2 = Some x" "session_assignments evs = [x]"
      by auto
    let ?p = "Post_companies_fetch b (csrfToken x) (cookies x)"
    from assms l Inr x have "s' = emit ?p s2"
      by (auto simp: fetchCompanyDetails_def Let_def split: sum.splits)
    with e x il show ?thesis
      by (intro exI [of _ "evs @ [?p]"])
         (auto simp: session_assignments_def split: sum.splits)
  qed
qed

lemma inside_fetcher_no_calls:
  "\<forall>e \<in> set evs. inside_fetcher e \<Longrightarrow> fetcher_calls evs = [] \<and> discovery_calls evs = []"
proof (induction evs)
  case Nil
  show ?case by (simp add: fetcher_calls_def discovery_calls_def)
next
  case (Cons e evs)
  then show ?case
    by (cases e) (simp_all add: fetcher_calls_def discovery_calls_def)
qed

lemma inside_login_facts:
  "\<forall>e \<in> set evs. inside_login e \<Longrightarrow> Call_login \<notin> set evs \<and> fetcher_calls evs = []"
proof (induction evs)
  case Nil
  show ?case by simp
next
  case (Cons e evs)
  then show ?case by (cases e) simp_all
qed

lemma discovery_event_no_fetcher:
  "\<forall>e \<in> set evs. discovery_event e \<Longrightarrow>
   fetcher_calls evs = [] \<and> session_assignments evs = [] \<and> Call_login \<notin> set evs"
proof (induction evs)
  case Nil
  show ?case by simp
next
  case (Cons e evs)
  then show ?case by (cases e) simp_all
qed

lemma fetchCompanyDetails_effect:
  assumes "fetchCompanyDetails cfg w b s = (r, s')"
  shows "\<exists>evs. trace s' = trace s @ Call_fetchCompanyDetails b # evs \<and>
               (\<forall>e \<in> set evs. inside_fetcher e)"
proof (cases "session s")
  case None
  from fetchCompanyDetails_without_session [OF None assms] show ?thesis
    by auto
next
  case (Some x)
  from fetchCompanyDetails_with_session [OF Some assms] show ?thesis
    by auto
qed

lemma first_fetch_without_session:
  assumes "session s = None" and "fetchCompanyDetails cfg w b s = (r, s')"
  shows "\<exists>a p. trace s' = trace s @ Call_fetchCompanyDetails b # Call_login # a @ p \<and>
           (\<forall>e \<in> set a. inside_login e) \<and> length (session_assignments a) \<le> 1 \<and>
           Call_login \<notin> set p \<and> session_assignments p = [] \<and>
           session s' = (case session_assignments a of [] \<Rightarrow> None | x # _ \<Rightarrow> Some x) \<and>
           (\<not> isl r \<longrightarrow> session s' \<noteq> None)"
proof -
  let ?s1 = "emit (Call_fetchCompanyDetails b) s"
  obtain r0 s2 where l: "login cfg w ?s1 = (r0, s2)"
    by (cases "login cfg w ?s1")
  from login_effect [OF l] obtain a where
    e: "trace s2 = trace ?s1 @ Call_login # a" "\<forall>e \<in> set a. inside_login e"
       "case r0 of Inl err \<Rightarrow> session s2 = session ?s1 \<and> session_assignments a = []
            | Inr u \<Rightarrow> (\<exists>x. session s2 = Some x \<and> session_assignments a = [x])"
    by blast
  show ?thesis
  proof (cases r0)
    case (Inl err)
    with assms l have "s' = s2" "isl r"
      by (auto simp: fetchCompanyDetails_def Let_def)
    with e Inl assms(1) show ?thesis
      by (intro exI [of _ a] exI [of _ "[]"]) simp
  next
    case (Inr u)
    with e obtain x where x: "session s2 = Some x" "session_assignments a = [x]"
      by auto
    let ?p = "Post_companies_fetch b (csrfToken x) (cookies x)"
    from assms l Inr x have "s' = emit ?p s2"
      by (auto simp: fetchCompanyDetails_def Let_def split: sum.splits)
    with e x show ?thesis
      by (intro exI [of _ a] exI [of _ "[?p]"]) simp
  qed
qed

lemma fetchCompanyIds_effect:
  "fetchCompanyIds cfg w p h s = (r, s') \<Longrightarrow>
   trace s' = trace s @ [Call_fetchCompanyIds p h,
                         Post_algolia (ALGOLIA_APP_ID cfg) (ALGOLIA_API_KEY cfg) p h]
   \<and> session s' = session s"
  by (auto simp: fetchCompanyIds_def Let_def split: sum.splits)

lemma discovery_loop_exit:
  "\<not> js_lt (Fin (int p)) np \<or> \<not> length acc < n \<Longrightarrow>
   discovery_loop cfg w n h np p acc s = (Inr acc, s)"
  by (subst discovery_loop.simps) auto

lemma discovery_loop_step:
  "js_lt (Fin (int p)) np \<Longrightarrow> length acc < n \<Longrightarrow>
   discovery_loop cfg w n h np p acc s =
     (case fetchCompanyIds cfg w p h s of
        (Inl err, s1) \<Rightarrow> (Inl err, s1)
      | (Inr ids, s1) \<Rightarrow>
          discovery_loop cfg w n h np (p + 1) (acc @ ids)
            (if js_lt (Fin (int p)) (js_minus np (Fin 1)) then emit (Sleep 1000) s1 else s1))"
  by (subst discovery_loop.simps) simp

lemma discovery_loop_effect:
  "discovery_loop cfg w n h np p acc s = (r, s') \<Longrightarrow>
   \<exists>evs. trace s' = trace s @ evs \<and> (\<forall>e \<in> set evs. discovery_event e) \<and>
         session s' = session s"
proof (induction cfg w n h np p acc s rule: discovery_loop.induct)
  case (1 cfg w n h np p acc s)
  show ?case
  proof (cases "js_lt (Fin (int p)) np \<and> length acc < n")
    case False
    with "1.prems" have "s' = s"
      by (auto simp: discovery_loop.simps [of cfg w n h np p acc s])
    then show ?thesis by simp
  next
    case True
    obtain r1 s1 where f: "fetchCompanyIds cfg w p h s = (r1, s1)"
      by (cases "fetchCompanyIds cfg w p h s")
    note e1 = fetchCompanyIds_effect [OF f]
    show ?thesis
    proof (cases r1)
      case (Inl err)
      with "1.prems" True f have "s' = s1"
        by (auto simp: discovery_loop.simps [of cfg w n h np p acc s])
      with e1 show ?thesis by simp
    next
      case (Inr ids)
      let ?s2 = "if js_lt (Fin (int p)) (js_minus np (Fin 1)) then emit (Sleep 1000) s1 else s1"
      let ?sl = "if js_lt (Fin (int p)) (js_minus np (Fin 1)) then [Sleep 1000] else []"
      from "1.prems" True f Inr
      have rec: "discovery_loop cfg w n h np (p + 1) (acc @ ids) ?s2 = (r, s')"
        by (simp add: discovery_loop.simps [of cfg w n h np p acc s])
      from "1.IH" [OF True f [symmetric] Inr rec] obtain evs2 where
        e2: "trace s' = trace ?s2 @ evs2" "\<forall>e \<in> set evs2. discovery_event e"
            "session s' = session ?s2"
        by blast
      have t2: "trace ?s2 = trace s1 @ ?sl" "session ?s2 = session s1" by simp_all
      let ?evs = "[Call_fetchCompanyIds p h,
                   Post_algolia (ALGOLIA_APP_ID cfg) (ALGOLIA_API_KEY cfg) p h] @ ?sl @ evs2"
      have "trace s' = trace s @ ?evs"
        using e1 e2(1) t2(1) by simp
      moreover have "\<forall>e \<in> set ?evs. discovery_event e"
        using e2(2) by auto
      moreover have "session s' = session s"
        using e1 e2(3) t2(2) by simp
      ultimately show ?thesis by blast
    qed
  qed
qed

lemma collect_ids_effect:
  assumes "collect_ids cfg w n s = (r, s')"
  shows "\<exists>evs. trace s' = trace s @ evs \<and> (\<forall>e \<in> set evs. discovery_event e) \<and>
               session s' = session s"
proof -
  let ?h = "min n 100"
  let ?np = "if ?h = 0 then NaN else Fin (int ((n + ?h - 1) div ?h))"
  obtain r0 s0 where d: "discovery_loop cfg w n ?h ?np 0 [] s = (r0, s0)"
    by (cases "discovery_loop cfg w n ?h ?np 0 [] s")
  with assms have "s' = s0"
    by (auto simp: collect_ids_def Let_def split: sum.splits)
  with discovery_loop_effect [OF d] show ?thesis by simp
qed

section \<open>Lemmas: the two loops and the shape of a run\<close>

lemma batch_loop_calls:
  "batch_loop cfg w ids i acc s = (r, s') \<Longrightarrow>
   \<exists>evs k. trace s' = trace s @ evs \<and> discovery_calls evs = [] \<and>
     fetcher_calls evs = take k (consecutive_batches batchSize (drop i ids)) \<and>
     (\<not> isl r \<longrightarrow> fetcher_calls evs = consecutive_batches batchSize (drop i ids))"
proof (induction cfg w ids i acc s rule: batch_loop.induct)
  case (1 cfg w ids i acc s)
  show ?case
  proof (cases "i < length ids")
    case False
    with "1.prems" have "s' = s" "\<not> isl r"
      by (auto simp: batch_loop.simps [of cfg w ids i acc s])
    with False show ?thesis
      by (intro exI [of _ "[]"] exI [of _ 0]) (simp add: fetcher_calls_def discovery_calls_def)
  next
    case True
    let ?b = "slice ids i (i + batchSize)"
    obtain r1 s1 where f: "fetchCompanyDetails cfg w ?b s = (r1, s1)"
      by (cases "fetchCompanyDetails cfg w ?b s")
    from fetchCompanyDetails_effect [OF f] obtain evs1 where
      e1: "trace s1 = trace s @ Call_fetchCompanyDetails ?b # evs1"
          "\<forall>e \<in> set evs1. inside_fetcher e"
      by blast
    from inside_fetcher_no_calls [OF e1(2)]
    have n1: "fetcher_calls evs1 = []" "discovery_calls evs1 = []" by simp_all
    have step: "consecutive_batches batchSize (drop i ids)
                = ?b # consecutive_batches batchSize (drop (i + batchSize) ids)"
      using True
      by (simp add: consecutive_batches_step batchSize_def slice_def add.commute)
    have c1: "fetcher_calls (Call_fetchCompanyDetails ?b # evs1) = [?b]"
             "discovery_calls (Call_fetchCompanyDetails ?b # evs1) = []"
      using n1 by (simp_all add: fetcher_calls_def discovery_calls_def)
    show ?thesis
    proof (cases r1)
      case (Inl err)
      with "1.prems" True f have "s' = s1" "isl r"
        by (auto simp: batch_loop.simps [of cfg w ids i acc s])
      with e1 c1 step show ?thesis
        by (intro exI [of _ "Call_fetchCompanyDetails ?b # evs1"] exI [of _ 1]) simp
    next
      case (Inr cs)
      let ?s2 = "if i + batchSize < length ids then emit (Sleep 2000) s1 else s1"
      let ?sl = "if i + batchSize < length ids then [Sleep 2000] else []"
      from "1.prems" True f Inr
      have rec: "batch_loop cfg w ids (i + batchSize) (acc @ cs) ?s2 = (r, s')"
        by (simp add: batch_loop.simps [of cfg w ids i acc s])
      from "1.IH" [OF True refl f [symmetric] Inr rec] obtain evs2 k where
        e2: "trace s' = trace ?s2 @ evs2" "discovery_calls evs2 = []"
            "fetcher_calls evs2 = take k (consecutive_batches batchSize (drop (i + batchSize) ids))"
            "\<not> isl r \<longrightarrow> fetcher_calls evs2
                 = consecutive_batches batchSize (drop (i + batchSize) ids)"
        by blast
      have t2: "trace ?s2 = trace s1 @ ?sl" by simp
      let ?evs = "Call_fetchCompanyDetails ?b # evs1 @ ?sl @ evs2"
      have tr: "trace s' = trace s @ ?evs"
        using e1(1) e2(1) t2 by simp
      have fc: "fetcher_calls ?evs = ?b # fetcher_calls evs2"
        and dc: "discovery_calls ?evs = []"
        using n1 e2(2) by simp_all
      from fc e2(3) step
      have "fetcher_calls ?evs = take (Suc k) (consecutive_batches batchSize (drop i ids))"
        by simp
      moreover from fc e2(4) step
      have "\<not> isl r \<longrightarrow> fetcher_calls ?evs = consecutive_batches batchSize (drop i ids)"
        by simp
      ultimately show ?thesis
        using tr dc by blast
    qed
  qed
qed

lemma batch_loop_with_session:
  "session s = Some x \<Longrightarrow> batch_loop cfg w ids i acc s = (r, s') \<Longrightarrow>
   \<exists>evs. trace s' = trace s @ evs \<and> Call_login \<notin> set evs \<and>
         session_assignments evs = [] \<and> session s' = Some x"
proof (induction cfg w ids i acc s rule: batch_loop.induct)
  case (1 cfg w ids i acc s)
  show ?case
  proof (cases "i < length ids")
    case False
    with "1.prems" have "s' = s"
      by (auto simp: batch_loop.simps [of cfg w ids i acc s])
    with "1.prems"(1) show ?thesis by simp
  next
    case True
    let ?b = "slice ids i (i + batchSize)"
    obtain r1 s1 where f: "fetchCompanyDetails cfg w ?b s = (r1, s1)"
      by (cases "fetchCompanyDetails cfg w ?b s")
    note e1 = fetchCompanyDetails_with_session [OF "1.prems"(1) f]
    show ?thesis
    proof (cases r1)
      case (Inl err)
      with "1.prems" True f have "s' = s1"
        by (auto simp: batch_loop.simps [of cfg w ids i acc s])
      with e1 show ?thesis by simp
    next
      case (Inr cs)
      let ?s2 = "if i + batchSize < length ids then emit (Sleep 2000) s1 else s1"
      let ?sl = "if i + batchSize < length ids then [Sleep 2000] else []"
      from "1.prems" True f Inr
      have rec: "batch_loop cfg w ids (i + batchSize) (acc @ cs) ?s2 = (r, s')"
        by (simp add: batch_loop.simps [of cfg w ids i acc s])
      have s2: "session ?s2 = Some x" "trace ?s2 = trace s1 @ ?sl"
        using e1 by simp_all
      from "1.IH" [OF True refl f [symmetric] Inr s2(1) rec] obtain evs2 where
        e2: "trace s' = trace ?s2 @ evs2" "Call_login \<notin> set evs2"
            "session_assignments evs2 = []" "session s' = Some x"
        by blast
      let ?evs = "[Call_fetchCompanyDetails ?b,
                   Post_companies_fetch ?b (csrfToken x) (cookies x)] @ ?sl @ evs2"
      have "trace s' = trace s @ ?evs"
        using e1 e2(1) s2(2) by simp
      moreover have "Call_login \<notin> set ?evs" "session_assignments ?evs = []"
        using e2(2,3) by auto
      ultimately show ?thesis
        using e2(4) by blast
    qed
  qed
qed

lemma run_events_split:
  assumes "collect_ids cfg w n s = (r1, s1)"
  shows "\<exists>d f k. run_events cfg w n s = d @ f \<and> trace s1 = trace s @ d \<and>
           (\<forall>e \<in> set d. discovery_event e) \<and> discovery_calls f = [] \<and>
           (case r1 of
              Inl err \<Rightarrow> f = []
            | Inr ids \<Rightarrow>
                fetcher_calls f = take k (consecutive_batches batchSize ids) \<and>
                (\<not> isl (fst (extractData cfg w n s)) \<longrightarrow>
                   fetcher_calls f = consecutive_batches batchSize ids))"
proof -
  from collect_ids_effect [OF assms] obtain d where
    d: "trace s1 = trace s @ d" "\<forall>e \<in> set d. discovery_event e"
    by blast
  show ?thesis
  proof (cases r1)
    case (Inl err)
    with assms have "extractData cfg w n s = (Inl err, s1)"
      by (simp add: extractData_def)
    with d Inl show ?thesis
      by (intro exI [of _ d] exI [of _ "[]"]) (simp add: run_events_def)
  next
    case (Inr ids)
    show ?thesis
    proof (cases "ids = []")
      case True
      with assms Inr have "extractData cfg w n s = (Inr [], s1)"
        by (simp add: extractData_def)
      with d Inr True show ?thesis
        by (intro exI [of _ d] exI [of _ "[]"]) (simp add: run_events_def)
    next
      case False
      obtain r2 s2 where b: "batch_loop cfg w ids 0 [] s1 = (r2, s2)"
        by (cases "batch_loop cfg w ids 0 [] s1")
      from batch_loop_calls [OF b, unfolded drop_0] obtain f k where
        f: "trace s2 = trace s1 @ f" "discovery_calls f = []"
           "fetcher_calls f = take k (consecutive_batches batchSize ids)"
           "\<not> isl r2 \<longrightarrow> fetcher_calls f = consecutive_batches batchSize ids"
        by blast
      from assms Inr False b
      have "snd (extractData cfg w n s) = s2" "isl (fst (extractData cfg w n s)) = isl r2"
        by (auto simp: extractData_def split: sum.splits)
      with d f Inr show ?thesis
        by (intro exI [of _ d] exI [of _ f] exI [of _ k]) (simp add: run_events_def)
    qed
  qed
qed

lemma ceil_div_self: "1 \<le> n \<Longrightarrow> (n + n - 1) div n = (1::nat)"
proof (rule div_nat_eqI)
  assume "1 \<le> n"
  then show "n * 1 \<le> n + n - 1" by simp
  show "n + n - 1 < n * Suc 1" using \<open>1 \<le> n\<close> by simp
qed

lemma one_page_trace:
  assumes "1 \<le> n" and "n \<le> 100" and "collect_ids cfg w n s = (r, s')"
  shows "trace s' = trace s @ [Call_fetchCompanyIds 0 n,
                               Post_algolia (ALGOLIA_APP_ID cfg) (ALGOLIA_API_KEY cfg) 0 n]"
proof -
  obtain r1 s1 where f: "fetchCompanyIds cfg w 0 n s = (r1, s1)"
    by (cases "fetchCompanyIds cfg w 0 n s")
  note e = fetchCompanyIds_effect [OF f]
  have np: "(n + n - 1) div n = 1" using assms(1) by (rule ceil_div_self)
  have "discovery_loop cfg w n n (Fin 1) 0 [] s
        = (case r1 of Inl err \<Rightarrow> (Inl err, s1) | Inr ids \<Rightarrow> (Inr ids, s1))"
    using assms(1) f
    by (simp add: discovery_loop_step discovery_loop_exit split: sum.splits)
  with assms np have "s' = s1"
    by (auto simp: collect_ids_def min_def Let_def split: sum.splits)
  with e show ?thesis by simp
qed

lemma discovery_calls_of_run:
  assumes "collect_ids cfg w n s = (r, s')" and "trace s' = trace s @ d"
  shows "discovery_calls (run_events cfg w n s) = discovery_calls d \<and>
         (\<exists>f. run_events cfg w n s = d @ f \<and> discovery_calls f = [] \<and>
            (case r of Inl err \<Rightarrow> f = []
             | Inr ids \<Rightarrow> (\<exists>k. fetcher_calls f = take k (consecutive_batches 20 ids))))"
proof -
  from run_events_split [OF assms(1)] obtain d' f k where
    r: "run_events cfg w n s = d' @ f" "trace s' = trace s @ d'" "discovery_calls f = []"
       "case r of Inl err \<Rightarrow> f = []
        | Inr ids \<Rightarrow> fetcher_calls f = take k (consecutive_batches batchSize ids) \<and>
            (\<not> isl (fst (extractData cfg w n s)) \<longrightarrow>
               fetcher_calls f = consecutive_batches batchSize ids)"
    by blast
  from r(2) assms(2) have "d' = d" by simp
  with r show ?thesis
    by (auto simp: batchSize_def split: sum.splits)
qed

lemma two_pages_trace:
  assumes f0: "fetchCompanyIds cfg w 0 100 s = (Inr ids0, s1)" and l0: "length ids0 < 150"
    and c: "collect_ids cfg w 150 s = (r, s')"
  shows "trace s' = trace s @ [Call_fetchCompanyIds 0 100,
                               Post_algolia (ALGOLIA_APP_ID cfg) (ALGOLIA_API_KEY cfg) 0 100,
                               Sleep 1000,
                               Call_fetchCompanyIds 1 100,
                               Post_algolia (ALGOLIA_APP_ID cfg) (ALGOLIA_API_KEY cfg) 1 100]
         \<and> (\<forall>ids1 s2. fetchCompanyIds cfg w 1 100 (emit (Sleep 1000) s1) = (Inr ids1, s2) \<longrightarrow>
               r = Inr (take 150 (ids0 @ ids1)))"
proof -
  obtain r2 s2 where f1: "fetchCompanyIds cfg w 1 100 (emit (Sleep 1000) s1) = (r2, s2)"
    by (cases "fetchCompanyIds cfg w 1 100 (emit (Sleep 1000) s1)")
  note e0 = fetchCompanyIds_effect [OF f0]
  note e1 = fetchCompanyIds_effect [OF f1]
  have second: "discovery_loop cfg w 150 100 (Fin 2) 1 ids0 (emit (Sleep 1000) s1)
        = (case r2 of Inl err \<Rightarrow> (Inl err, s2) | Inr ids1 \<Rightarrow> (Inr (ids0 @ ids1), s2))"
    using l0 f1
    by (simp add: discovery_loop_step discovery_loop_exit split: sum.splits)
  have "discovery_loop cfg w 150 100 (Fin 2) 0 [] s
        = discovery_loop cfg w 150 100 (Fin 2) 1 ids0 (emit (Sleep 1000) s1)"
    using f0 by (simp add: discovery_loop_step)
  with second c
  have "s' = s2 \<and> (\<forall>ids1. r2 = Inr ids1 \<longrightarrow> r = Inr (take 150 (ids0 @ ids1)))"
    by (auto simp: collect_ids_def slice_def split: sum.splits)
  with e0 e1 f1 show ?thesis by simp
qed

section \<open>Lemmas: the discovery of a run for 150, and the login page\<close>

lemma first_page_fails_trace:
  assumes f0: "fetchCompanyIds cfg w 0 100 s = (Inl err, s1)"
  shows "collect_ids cfg w 150 s = (Inl err, s1) \<and>
         trace s1 = trace s @ [Call_fetchCompanyIds 0 100,
                               Post_algolia (ALGOLIA_APP_ID cfg) (ALGOLIA_API_KEY cfg) 0 100]"
proof -
  have "discovery_loop cfg w 150 100 (Fin 2) 0 [] s = (Inl err, s1)"
    using f0 by (simp add: discovery_loop_step)
  then have "collect_ids cfg w 150 s = (Inl err, s1)"
    by (simp add: collect_ids_def)
  with fetchCompanyIds_effect [OF f0] show ?thesis by simp
qed

lemma first_page_fills_trace:
  assumes f0: "fetchCompanyIds cfg w 0 100 s = (Inr ids0, s1)" and l0: "150 \<le> length ids0"
  shows "collect_ids cfg w 150 s = (Inr (take 150 ids0), emit (Sleep 1000) s1) \<and>
         trace (emit (Sleep 1000) s1)
           = trace s @ [Call_fetchCompanyIds 0 100,
                        Post_algolia (ALGOLIA_APP_ID cfg) (ALGOLIA_API_KEY cfg) 0 100,
                        Sleep 1000]"
proof -
  have "discovery_loop cfg w 150 100 (Fin 2) 0 [] s
        = discovery_loop cfg w 150 100 (Fin 2) 1 ids0 (emit (Sleep 1000) s1)"
    using f0 by (simp add: discovery_loop_step)
  also have "\<dots> = (Inr ids0, emit (Sleep 1000) s1)"
    using l0 by (simp add: discovery_loop_exit)
  finally have "collect_ids cfg w 150 s = (Inr (take 150 ids0), emit (Sleep 1000) s1)"
    by (simp add: collect_ids_def slice_def)
  with fetchCompanyIds_effect [OF f0] show ?thesis by simp
qed

lemma second_page_fails:
  assumes f0: "fetchCompanyIds cfg w 0 100 s = (Inr ids0, s1)" and l0: "length ids0 < 150"
    and f1: "fetchCompanyIds cfg w 1 100 (emit (Sleep 1000) s1) = (Inl err, s2)"
  shows "collect_ids cfg w 150 s = (Inl err, s2)"
proof -
  have "discovery_loop cfg w 150 100 (Fin 2) 0 [] s
        = discovery_loop cfg w 150 100 (Fin 2) 1 ids0 (emit (Sleep 1000) s1)"
    using f0 by (simp add: discovery_loop_step)
  also have "\<dots> = (Inl err, s2)"
    using l0 f1 by (simp add: discovery_loop_step)
  finally show ?thesis
    by (simp add: collect_ids_def)
qed

lemma run_aborted_in_discovery:
  assumes "collect_ids cfg w n s = (Inl err, s')"
  shows "fst (extractData cfg w n s) = Inl err \<and> fetcher_calls (run_events cfg w n s) = []"
proof -
  from assms have e: "extractData cfg w n s = (Inl err, s')"
    by (simp add: extractData_def)
  from collect_ids_effect [OF assms] obtain d where
    d: "trace s' = trace s @ d" "\<forall>e \<in> set d. discovery_event e"
    by blast
  from e d(1) have "run_events cfg w n s = d"
    by (simp add: run_events_def)
  with discovery_event_no_fetcher [OF d(2)] e show ?thesis by simp
qed


text \<open>
  A body can hold no token and still be delivered as a text that holds one: the string
  literal of \<open>token_text\<close> is valid JSON, axios hands over the decoded string, and \<open>login\<close>
  goes on to post the credentials.
\<close>

lemma quoted_token_body_is_posted:
  "csrf_match (json_quote token_text) = None \<and>
   transformResponse (json_parse quoted_token_world) (json_quote token_text)
     = Json_string token_text \<and>
   csrf_match token_text = Some ''abc'' \<and>
   take 3 (trace (snd (login example_config quoted_token_world new_extractor)))
     = [Call_login, Get_login_page, Post_sign_in ''user'' ''pw'' ''abc'' ''sid=1'']"
  by code_simp

section \<open>Lemmas: where the delays fall\<close>

text \<open>
  In every run the events are the discovery events followed by the events of the batch
  loop (\<open>run_delays\<close> below).  The Fetcher calls are paced: 2000 ms between two
  consecutive batches and nothing after the last one.  The discovery calls are separated
  by 1000 ms each, and one more delay may follow the last call; it does not when the
  search index honours the page size, since then the identifiers held after a page before
  the last are fewer than \<open>maxCompanies\<close> and the loop goes on.
\<close>

lemma pacing_append [simp]: "pacing (xs @ ys) = pacing xs @ pacing ys"
  by (simp add: pacing_def)

lemma pacing_simps [simp]:
  "pacing [] = []"
  "pacing (Call_fetchCompanyIds p h # evs) = Call_fetchCompanyIds p h # pacing evs"
  "pacing (Call_fetchCompanyDetails b # evs) = Call_fetchCompanyDetails b # pacing evs"
  "pacing (Sleep ms # evs) = Sleep ms # pacing evs"
  "pacing (Post_algolia a k p h # evs) = pacing evs"
  by (simp_all add: pacing_def)

lemma inside_fetcher_pacing: "\<forall>e \<in> set evs. inside_fetcher e \<Longrightarrow> pacing evs = []"
proof (induction evs)
  case Nil
  show ?case by simp
next
  case (Cons e evs)
  then show ?case by (cases e) (simp_all add: pacing_def)
qed

lemma batch_loop_paced:
  "batch_loop cfg w ids i acc s = (r, s') \<Longrightarrow>
   \<exists>f. trace s' = trace s @ f \<and> batches_paced (pacing f) \<and>
       (if i < length ids then \<exists>b rest. pacing f = Call_fetchCompanyDetails b # rest
        else f = [])"
proof (induction cfg w ids i acc s rule: batch_loop.induct)
  case (1 cfg w ids i acc s)
  show ?case
  proof (cases "i < length ids")
    case False
    with "1.prems" have "s' = s"
      by (auto simp: batch_loop.simps [of cfg w ids i acc s])
    with False show ?thesis by simp
  next
    case True
    let ?b = "slice ids i (i + batchSize)"
    obtain r1 s1 where f: "fetchCompanyDetails cfg w ?b s = (r1, s1)"
      by (cases "fetchCompanyDetails cfg w ?b s")
    from fetchCompanyDetails_effect [OF f] obtain evs1 where
      e1: "trace s1 = trace s @ Call_fetchCompanyDetails ?b # evs1"
          "\<forall>e \<in> set evs1. inside_fetcher e"
      by blast
    note p1 = inside_fetcher_pacing [OF e1(2)]
    show ?thesis
    proof (cases r1)
      case (Inl err)
      with "1.prems" True f have "s' = s1"
        by (auto simp: batch_loop.simps [of cfg w ids i acc s])
      with e1(1) p1 True show ?thesis
        by (intro exI [of _ "Call_fetchCompanyDetails ?b # evs1"]) simp
    next
      case (Inr cs)
      let ?s2 = "if i + batchSize < length ids then emit (Sleep 2000) s1 else s1"
      from "1.prems" True f Inr
      have rec: "batch_loop cfg w ids (i + batchSize) (acc @ cs) ?s2 = (r, s')"
        by (simp add: batch_loop.simps [of cfg w ids i acc s])
      from "1.IH" [OF True refl f [symmetric] Inr rec] obtain f2 where
        e2: "trace s' = trace ?s2 @ f2" "batches_paced (pacing f2)"
            "if i + batchSize < length ids
             then \<exists>b rest. pacing f2 = Call_fetchCompanyDetails b # rest else f2 = []"
        by blast
      show ?thesis
      proof (cases "i + batchSize < length ids")
        case more: True
        with e2(3) obtain b' rest where b': "pacing f2 = Call_fetchCompanyDetails b' # rest"
          by auto
        let ?f = "Call_fetchCompanyDetails ?b # evs1 @ Sleep 2000 # f2"
        have "trace s' = trace s @ ?f"
          using e1(1) e2(1) more by simp
        moreover have "pacing ?f = Call_fetchCompanyDetails ?b # Sleep 2000 # pacing f2"
          using p1 by simp
        ultimately show ?thesis
          using True e2(2) b' by (intro exI [of _ ?f]) simp
      next
        case last: False
        with e2(3) have "f2 = []" by simp
        with e1(1) e2(1) last p1 True show ?thesis
          by (intro exI [of _ "Call_fetchCompanyDetails ?b # evs1"]) simp
      qed
    qed
  qed
qed

lemma discovery_loop_paced:
  "discovery_loop cfg w n h np p acc s = (r, s') \<Longrightarrow>
   \<exists>d. trace s' = trace s @ d \<and> pages_paced_or_trailing (pacing d) \<and>
       (if js_lt (Fin (int p)) np \<and> length acc < n
        then \<exists>rest. pacing d = Call_fetchCompanyIds p h # rest else d = [])"
proof (induction cfg w n h np p acc s rule: discovery_loop.induct)
  case (1 cfg w n h np p acc s)
  show ?case
  proof (cases "js_lt (Fin (int p)) np \<and> length acc < n")
    case False
    with "1.prems" have "s' = s"
      by (auto simp: discovery_loop.simps [of cfg w n h np p acc s])
    with False show ?thesis by auto
  next
    case True
    let ?c = "Call_fetchCompanyIds p h"
    let ?q = "Post_algolia (ALGOLIA_APP_ID cfg) (ALGOLIA_API_KEY cfg) p h"
    obtain r1 s1 where f: "fetchCompanyIds cfg w p h s = (r1, s1)"
      by (cases "fetchCompanyIds cfg w p h s")
    from fetchCompanyIds_effect [OF f] have e1: "trace s1 = trace s @ [?c, ?q]"
      by simp
    show ?thesis
    proof (cases r1)
      case (Inl err)
      with "1.prems" True f have "s' = s1"
        by (auto simp: discovery_loop.simps [of cfg w n h np p acc s])
      with e1 True show ?thesis
        by (intro exI [of _ "[?c, ?q]"]) simp
    next
      case (Inr ids)
      let ?sl = "js_lt (Fin (int p)) (js_minus np (Fin 1))"
      let ?s2 = "if ?sl then emit (Sleep 1000) s1 else s1"
      from "1.prems" True f Inr
      have rec: "discovery_loop cfg w n h np (p + 1) (acc @ ids) ?s2 = (r, s')"
        by (simp add: discovery_loop.simps [of cfg w n h np p acc s])
      from "1.IH" [OF True f [symmetric] Inr rec] obtain d2 where
        e2: "trace s' = trace ?s2 @ d2" "pages_paced_or_trailing (pacing d2)"
            "if js_lt (Fin (int (p + 1))) np \<and> length (acc @ ids) < n
             then \<exists>rest. pacing d2 = Call_fetchCompanyIds (p + 1) h # rest else d2 = []"
        by blast
      let ?d = "[?c, ?q] @ (if ?sl then [Sleep 1000] else []) @ d2"
      have t: "trace s' = trace s @ ?d"
        using e1 e2(1) by simp
      have "pages_paced_or_trailing (pacing ?d)"
      proof (cases "js_lt (Fin (int (p + 1))) np \<and> length (acc @ ids) < n")
        case cont: True
        with e2(3) obtain rest where rest: "pacing d2 = Call_fetchCompanyIds (p + 1) h # rest"
          by auto
        from cont have "?sl" by (cases np) auto
        with rest e2(2) show ?thesis by simp
      next
        case stop: False
        with e2(3) have "d2 = []" by simp
        then show ?thesis by simp
      qed
      moreover have "\<exists>rest. pacing ?d = ?c # rest" by simp
      ultimately show ?thesis
        using t True by (intro exI [of _ ?d]) simp
    qed
  qed
qed

lemma ceil_div_pred:
  assumes "0 < h" and "0 < n"
  shows "((n + h - 1) div h - 1) * h < (n::nat)"
proof -
  let ?q = "(n + h - 1) div h"
  have "?q * h \<le> n + h - 1" by (rule div_times_less_eq_dividend)
  with assms have "?q * h - h \<le> n - 1" by linarith
  moreover have "(?q - 1) * h = ?q * h - h" by (simp add: diff_mult_distrib)
  ultimately show ?thesis using assms by linarith
qed

lemma discovery_loop_paced_strict:
  "discovery_loop cfg w n h np p acc s = (r, s') \<Longrightarrow> np = Fin (int k) \<Longrightarrow>
   \<forall>p s ids s'. fetchCompanyIds cfg w p h s = (Inr ids, s') \<longrightarrow> length ids \<le> h \<Longrightarrow>
   (k - 1) * h < n \<Longrightarrow> length acc \<le> p * h \<Longrightarrow>
   \<exists>d. trace s' = trace s @ d \<and> pages_paced (pacing d) \<and>
       (if p < k \<and> length acc < n
        then \<exists>rest. pacing d = Call_fetchCompanyIds p h # rest else d = [])"
proof (induction cfg w n h np p acc s rule: discovery_loop.induct)
  case (1 cfg w n h np p acc s)
  note run = "1.prems"(1) and np = "1.prems"(2) and bound = "1.prems"(3)
    and k = "1.prems"(4) and inv = "1.prems"(5)
  show ?case
  proof (cases "p < k \<and> length acc < n")
    case False
    with run have "s' = s"
      by (auto simp: np discovery_loop.simps [of cfg w n h "Fin (int k)" p acc s])
    with False show ?thesis by auto
  next
    case True
    then have cond: "js_lt (Fin (int p)) np \<and> length acc < n" by (simp add: np)
    let ?c = "Call_fetchCompanyIds p h"
    let ?q = "Post_algolia (ALGOLIA_APP_ID cfg) (ALGOLIA_API_KEY cfg) p h"
    obtain r1 s1 where f: "fetchCompanyIds cfg w p h s = (r1, s1)"
      by (cases "fetchCompanyIds cfg w p h s")
    from fetchCompanyIds_effect [OF f] have e1: "trace s1 = trace s @ [?c, ?q]"
      by simp
    show ?thesis
    proof (cases r1)
      case (Inl err)
      with run cond f have "s' = s1"
        by (auto simp: discovery_loop.simps [of cfg w n h np p acc s])
      with e1 True show ?thesis
        by (intro exI [of _ "[?c, ?q]"]) simp
    next
      case (Inr ids)
      let ?sl = "js_lt (Fin (int p)) (js_minus np (Fin 1))"
      let ?s2 = "if ?sl then emit (Sleep 1000) s1 else s1"
      from run cond f Inr
      have rec: "discovery_loop cfg w n h np (p + 1) (acc @ ids) ?s2 = (r, s')"
        by (simp add: discovery_loop.simps [of cfg w n h np p acc s])
      from f Inr bound have "length ids \<le> h" by blast
      with inv have inv': "length (acc @ ids) \<le> (p + 1) * h" by simp
      from "1.IH" [OF cond f [symmetric] Inr rec np bound k inv'] obtain d2 where
        e2: "trace s' = trace ?s2 @ d2" "pages_paced (pacing d2)"
            "if p + 1 < k \<and> length (acc @ ids) < n
             then \<exists>rest. pacing d2 = Call_fetchCompanyIds (p + 1) h # rest else d2 = []"
        by blast
      have sl: "?sl \<longleftrightarrow> p + 1 < k" by (auto simp: np)
      let ?d = "[?c, ?q] @ (if ?sl then [Sleep 1000] else []) @ d2"
      have t: "trace s' = trace s @ ?d"
        using e1 e2(1) by simp
      have "pages_paced (pacing ?d)"
      proof (cases "p + 1 < k")
        case more: True
        then have "p + 1 \<le> k - 1" by simp
        then have "(p + 1) * h \<le> (k - 1) * h" by (rule mult_le_mono1)
        with inv' k have "length (acc @ ids) < n" by linarith
        with more e2(3) obtain rest where "pacing d2 = Call_fetchCompanyIds (p + 1) h # rest"
          by auto
        with more sl e2(2) show ?thesis by simp
      next
        case last: False
        with e2(3) have "d2 = []" by simp
        with last sl show ?thesis by simp
      qed
      moreover have "\<exists>rest. pacing ?d = ?c # rest" by simp
      ultimately show ?thesis
        using t True by (intro exI [of _ ?d]) simp
    qed
  qed
qed

lemma run_delays:
  "\<exists>d f. run_events cfg w n s = d @ f \<and>
     (\<forall>e \<in> set d. discovery_event e) \<and> discovery_calls f = [] \<and>
     pages_paced_or_trailing (pacing d) \<and> batches_paced (pacing f) \<and>
     (pageSize_honoured cfg w (min n 100) \<longrightarrow> pages_paced (pacing d))"
proof -
  let ?h = "min n 100"
  let ?k = "(n + ?h - 1) div ?h"
  let ?np = "if ?h = 0 then NaN else Fin (int ?k)"
  obtain r0 s1 where dl: "discovery_loop cfg w n ?h ?np 0 [] s = (r0, s1)"
    by (cases "discovery_loop cfg w n ?h ?np 0 [] s")
  obtain r1 where c: "collect_ids cfg w n s = (r1, s1)"
    using dl by (cases r0) (simp_all add: collect_ids_def Let_def)
  from discovery_loop_paced [OF dl] obtain d where
    d: "trace s1 = trace s @ d" "pages_paced_or_trailing (pacing d)"
    by blast
  have strict: "pages_paced (pacing d)" if hon: "pageSize_honoured cfg w (min n 100)"
  proof (cases "n = 0")
    case True
    with dl have "s1 = s" by (simp add: discovery_loop_exit)
    with d(1) show ?thesis by simp
  next
    case False
    then have h: "0 < ?h" and np: "?np = Fin (int ?k)" by simp_all
    from False h have k: "(?k - 1) * ?h < n" by (intro ceil_div_pred) simp_all
    from hon have b: "\<forall>p s ids s'. fetchCompanyIds cfg w p ?h s = (Inr ids, s') \<longrightarrow> length ids \<le> ?h"
      unfolding pageSize_honoured_def by blast
    from discovery_loop_paced_strict [OF dl np b k] obtain d' where
      "trace s1 = trace s @ d'" "pages_paced (pacing d')"
      by auto
    with d(1) show ?thesis by simp
  qed
  from run_events_split [OF c] obtain d' f where
    r: "run_events cfg w n s = d' @ f" "trace s1 = trace s @ d'"
       "\<forall>e \<in> set d'. discovery_event e" "discovery_calls f = []"
    by blast
  from r(2) d(1) have dd: "d' = d" by simp
  have "batches_paced (pacing f)"
  proof (cases r1)
    case (Inl err)
    with c have "extractData cfg w n s = (Inl err, s1)" by (simp add: extractData_def)
    with r(1,2) dd have "f = []" by (simp add: run_events_def)
    then show ?thesis by simp
  next
    case (Inr ids)
    show ?thesis
    proof (cases "ids = []")
      case True
      with c Inr have "extractData cfg w n s = (Inr [], s1)" by (simp add: extractData_def)
      with r(1,2) dd have "f = []" by (simp add: run_events_def)
      then show ?thesis by simp
    next
      case False
      obtain r2 s2 where b: "batch_loop cfg w ids 0 [] s1 = (r2, s2)"
        by (cases "batch_loop cfg w ids 0 [] s1")
      from c Inr False b have fin: "snd (extractData cfg w n s) = s2"
        by (auto simp: extractData_def split: sum.splits)
      from batch_loop_paced [OF b] obtain f' where
        f': "trace s2 = trace s1 @ f'" "batches_paced (pacing f')"
        by blast
      from fin f'(1) d(1) have "run_events cfg w n s = d @ f'"
        by (simp add: run_events_def)
      with r(1) dd have "f = f'" by simp
      with f'(2) show ?thesis by simp
    qed
  qed
  with r dd d(2) strict show ?thesis by blast
qed

lemma hundred_per_page_honoured:
  "pageSize_honoured example_config (signed_in_world hundred_per_page) 100"
  by (auto simp: pageSize_honoured_def fetchCompanyIds_def Let_def axios_request_def
        signed_in_world_def example_world_def default_validateStatus_def
        hundred_per_page_def first_100_def second_100_def)

section \<open>The claims\<close>

text \<open>
  C1.  For every run with \<open>targetCount = 0\<close>, \<open>extractData\<close> returns an empty output list
  and calls neither Discovery nor the Fetcher: the extractor, and with it the trace, is
  returned as it was received.  (In the code \<open>numPages\<close> is \<open>NaN\<close> here, not 0; the loop
  condition \<open>page < NaN\<close> is false, which has the same effect.)
\<close>

theorem extractData_zero:
  "extractData cfg w 0 s = (Inr [], s) \<and> run_events cfg w 0 s = []"
  by (simp add: extractData_def collect_ids_def run_events_def slice_def discovery_loop_exit)

text \<open>
  C2.  For every list of fetched records, the Formatter produces exactly one output
  record per record, in the same order (the output at position \<open>i\<close> carries the fields
  of the record at position \<open>i\<close>), and the \<open>jobs\<close> list of each output record has the
  length and the order of the jobs present on its record.
\<close>

theorem formatCompanyData_one_per_record:
  "length (formatCompanyData cs) = length cs \<and>
   (\<forall>i < length cs.
      o_name (formatCompanyData cs ! i) = or_string (c_name (cs ! i)) [] \<and>
      o_website (formatCompanyData cs ! i) = or_string (c_website (cs ! i)) [] \<and>
      o_team_size (formatCompanyData cs ! i) = c_team_size (cs ! i) \<and>
      o_founders (formatCompanyData cs ! i) = Value (or_array (c_founders (cs ! i)) []) \<and>
      o_primary_vertical (formatCompanyData cs ! i) = c_primary_vertical (cs ! i) \<and>
      o_website_display (formatCompanyData cs ! i) = c_website_display (cs ! i) \<and>
      o_country (formatCompanyData cs ! i) = c_country (cs ! i) \<and>
      length (o_jobs (formatCompanyData cs ! i)) = length (jobs_present (cs ! i)) \<and>
      (\<forall>k < length (jobs_present (cs ! i)).
         oj_name (o_jobs (formatCompanyData cs ! i) ! k)
           = or_string (j_title (jobs_present (cs ! i) ! k)) [] \<and>
         oj_pretty_min_experience (o_jobs (formatCompanyData cs ! i) ! k)
           = j_pretty_min_experience (jobs_present (cs ! i) ! k) \<and>
         oj_pretty_job_type (o_jobs (formatCompanyData cs ! i) ! k)
           = j_pretty_job_type (jobs_present (cs ! i) ! k) \<and>
         oj_pretty_role (o_jobs (formatCompanyData cs ! i) ! k)
           = j_pretty_role (jobs_present (cs ! i) ! k) \<and>
         oj_pretty_salary_range (o_jobs (formatCompanyData cs ! i) ! k)
           = j_pretty_salary_range (jobs_present (cs ! i) ! k)))"
  by (simp add: formatCompanyData_def jobs_present_def or_array_Nil)

theorem formatCompanyData_one_per_record_witness:
  "length (formatCompanyData [acme, plain_company 2]) = 2 \<and>
   (0::nat) < length [acme, plain_company 2] \<and>
   o_name (formatCompanyData [acme, plain_company 2] ! 0) = ''Acme'' \<and>
   length (o_jobs (formatCompanyData [acme, plain_company 2] ! 0)) = 2 \<and>
   (1::nat) < length (jobs_present ([acme, plain_company 2] ! 0)) \<and>
   oj_name (o_jobs (formatCompanyData [acme, plain_company 2] ! 0) ! 1) = ''Designer'' \<and>
   oj_pretty_role (o_jobs (formatCompanyData [acme, plain_company 2] ! 0) ! 1) = Undefined"
  using formatCompanyData_one_per_record [of "[acme, plain_company 2]"]
  by (simp add: acme_def plain_company_def titled_job_def jobs_present_def)



text \<open>
  C4, as the code has it.  For every \<open>targetCount\<close> from 1 to 100 exactly one discovery
  page is requested, page 0 with \<open>pageSize = targetCount\<close>.  For \<open>targetCount = 150\<close> page 0
  is requested with \<open>pageSize = 100\<close>, and then:
  when it fails, no other page is requested, the Fetcher is not called and the run fails
  with that error;
  when it is answered with 150 identifiers or more, no other page is requested and the
  identifier list is the first 150 entries of the answer;
  when it is answered with fewer than 150 identifiers, page 1 is requested with
  \<open>pageSize = 100\<close> and no page after it; if page 1 fails, the Fetcher is not called and
  the run fails with that error, and if it is answered the identifier list is the first
  150 entries of the two answers.
  Whenever there is an identifier list, all discovery events come before everything else
  and the Fetcher is only called with batches of the truncated list.
\<close>

theorem discovery_pages_requested:
  "(1 \<le> n \<and> n \<le> 100 \<longrightarrow> discovery_calls (run_events cfg w n s) = [(0, n)]) \<and>
   (fetchCompanyIds cfg w 0 100 s = (Inl err0, s1) \<longrightarrow>
      discovery_calls (run_events cfg w 150 s) = [(0, 100)] \<and>
      fetcher_calls (run_events cfg w 150 s) = [] \<and>
      fst (extractData cfg w 150 s) = Inl err0) \<and>
   (fetchCompanyIds cfg w 0 100 s = (Inr ids0, s1) \<and> 150 \<le> length ids0 \<longrightarrow>
      discovery_calls (run_events cfg w 150 s) = [(0, 100)] \<and>
      fst (collect_ids cfg w 150 s) = Inr (take 150 ids0) \<and>
      (\<exists>d f k. run_events cfg w 150 s = d @ f \<and>
         (\<forall>e \<in> set d. discovery_event e) \<and> discovery_calls f = [] \<and>
         fetcher_calls f = take k (consecutive_batches 20 (take 150 ids0)))) \<and>
   (fetchCompanyIds cfg w 0 100 s = (Inr ids0, s1) \<and> length ids0 < 150 \<longrightarrow>
      discovery_calls (run_events cfg w 150 s) = [(0, 100), (1, 100)] \<and>
      (fetchCompanyIds cfg w 1 100 (emit (Sleep 1000) s1) = (Inl err1, s2) \<longrightarrow>
         fetcher_calls (run_events cfg w 150 s) = [] \<and>
         fst (extractData cfg w 150 s) = Inl err1) \<and>
      (fetchCompanyIds cfg w 1 100 (emit (Sleep 1000) s1) = (Inr ids1, s2) \<longrightarrow>
         fst (collect_ids cfg w 150 s) = Inr (take 150 (ids0 @ ids1)) \<and>
         (\<exists>d f k. run_events cfg w 150 s = d @ f \<and>
            (\<forall>e \<in> set d. discovery_event e) \<and> discovery_calls f = [] \<and>
            fetcher_calls f = take k (consecutive_batches 20 (take 150 (ids0 @ ids1))))))"
proof (intro conjI impI)
  assume n: "1 \<le> n \<and> n \<le> 100"
  obtain r s' where c: "collect_ids cfg w n s = (r, s')"
    by (cases "collect_ids cfg w n s")
  from n one_page_trace [OF _ _ c] discovery_calls_of_run [OF c]
  show "discovery_calls (run_events cfg w n s) = [(0, n)]"
    by simp
next
  assume a: "fetchCompanyIds cfg w 0 100 s = (Inl err0, s1)"
  note t = first_page_fails_trace [OF a]
  from t discovery_calls_of_run [of cfg w 150 s "Inl err0" s1]
  show "discovery_calls (run_events cfg w 150 s) = [(0, 100)]"
    by simp
  from t run_aborted_in_discovery [of cfg w 150 s err0 s1]
  show "fetcher_calls (run_events cfg w 150 s) = []"
    and "fst (extractData cfg w 150 s) = Inl err0"
    by simp_all
next
  let ?d = "[Call_fetchCompanyIds 0 100,
             Post_algolia (ALGOLIA_APP_ID cfg) (ALGOLIA_API_KEY cfg) 0 100,
             Sleep 1000]"
  assume a: "fetchCompanyIds cfg w 0 100 s = (Inr ids0, s1) \<and> 150 \<le> length ids0"
  then have c: "collect_ids cfg w 150 s = (Inr (take 150 ids0), emit (Sleep 1000) s1)"
    and t: "trace (emit (Sleep 1000) s1) = trace s @ ?d"
    using first_page_fills_trace [of cfg w s ids0 s1] by simp_all
  from discovery_calls_of_run [OF c t]
  show "discovery_calls (run_events cfg w 150 s) = [(0, 100)]"
    by simp
  from c show "fst (collect_ids cfg w 150 s) = Inr (take 150 ids0)"
    by simp
  from discovery_calls_of_run [OF c t] obtain f k where
    f: "run_events cfg w 150 s = ?d @ f" "discovery_calls f = []"
       "fetcher_calls f = take k (consecutive_batches 20 (take 150 ids0))"
    unfolding sum.case by blast
  have "\<forall>e \<in> set ?d. discovery_event e" by simp
  with f show "\<exists>d f k. run_events cfg w 150 s = d @ f \<and>
         (\<forall>e \<in> set d. discovery_event e) \<and> discovery_calls f = [] \<and>
         fetcher_calls f = take k (consecutive_batches 20 (take 150 ids0))"
    by blast
next
  let ?d = "[Call_fetchCompanyIds 0 100,
             Post_algolia (ALGOLIA_APP_ID cfg) (ALGOLIA_API_KEY cfg) 0 100,
             Sleep 1000,
             Call_fetchCompanyIds 1 100,
             Post_algolia (ALGOLIA_APP_ID cfg) (ALGOLIA_API_KEY cfg) 1 100]"
  assume a: "fetchCompanyIds cfg w 0 100 s = (Inr ids0, s1) \<and> length ids0 < 150"
  obtain r s' where c: "collect_ids cfg w 150 s = (r, s')"
    by (cases "collect_ids cfg w 150 s")
  from a two_pages_trace [OF _ _ c] have t: "trace s' = trace s @ ?d"
    by blast
  from discovery_calls_of_run [OF c t]
  show "discovery_calls (run_events cfg w 150 s) = [(0, 100), (1, 100)]"
    by simp
  {
    assume b: "fetchCompanyIds cfg w 1 100 (emit (Sleep 1000) s1) = (Inl err1, s2)"
    from a have a0: "fetchCompanyIds cfg w 0 100 s = (Inr ids0, s1)"
      and l0: "length ids0 < 150"
      by simp_all
    from run_aborted_in_discovery [OF second_page_fails [OF a0 l0 b]]
    show "fetcher_calls (run_events cfg w 150 s) = []"
      and "fst (extractData cfg w 150 s) = Inl err1"
      by simp_all
  }
  assume b: "fetchCompanyIds cfg w 1 100 (emit (Sleep 1000) s1) = (Inr ids1, s2)"
  from a b two_pages_trace [OF _ _ c] have r: "r = Inr (take 150 (ids0 @ ids1))"
    by blast
  with c show "fst (collect_ids cfg w 150 s) = Inr (take 150 (ids0 @ ids1))"
    by simp
  from discovery_calls_of_run [OF c t] obtain f where
    f: "run_events cfg w 150 s = ?d @ f" "discovery_calls f = []"
       "case r of Inl err \<Rightarrow> f = []
        | Inr ids \<Rightarrow> (\<exists>k. fetcher_calls f = take k (consecutive_batches 20 ids))"
    by blast
  from f(3) obtain k where
    k: "fetcher_calls f = take k (consecutive_batches 20 (take 150 (ids0 @ ids1)))"
    unfolding r sum.case by blast
  have "\<forall>e \<in> set ?d. discovery_event e" by simp
  with f(1,2) k
  show "\<exists>d f k. run_events cfg w 150 s = d @ f \<and>
            (\<forall>e \<in> set d. discovery_event e) \<and> discovery_calls f = [] \<and>
            fetcher_calls f = take k (consecutive_batches 20 (take 150 (ids0 @ ids1)))"
    by blast
qed

theorem discovery_pages_requested_witness:
  "(1::nat) \<le> 3 \<and> (3::nat) \<le> 100 \<and>
   discovery_calls (run_events example_config (signed_in_world three_ids) 3 new_extractor)
     = [(0, 3)] \<and>
   fetchCompanyIds example_config (offline_from 0 (signed_in_world hundred_per_page)) 0 100
       new_extractor
     = (Inl (JsError ''AxiosError'' ''Network Error''),
        emit (Post_algolia ''app'' ''key'' 0 100)
          (emit (Call_fetchCompanyIds 0 100) new_extractor)) \<and>
   discovery_calls
     (run_events example_config (offline_from 0 (signed_in_world hundred_per_page)) 150
        new_extractor) = [(0, 100)] \<and>
   fst (extractData example_config (offline_from 0 (signed_in_world hundred_per_page)) 150
          new_extractor) = Inl (JsError ''AxiosError'' ''Network Error'') \<and>
   fetchCompanyIds example_config (signed_in_world all_on_first_page) 0 100 new_extractor
     = (Inr first_150, emit (Post_algolia ''app'' ''key'' 0 100)
                         (emit (Call_fetchCompanyIds 0 100) new_extractor)) \<and>
   150 \<le> length first_150 \<and>
   fst (collect_ids example_config (signed_in_world all_on_first_page) 150 new_extractor)
     = Inr (take 150 first_150) \<and>
   fetchCompanyIds example_config (signed_in_world hundred_per_page) 0 100 new_extractor
     = (Inr first_100, emit (Post_algolia ''app'' ''key'' 0 100)
                         (emit (Call_fetchCompanyIds 0 100) new_extractor)) \<and>
   length first_100 < 150 \<and>
   discovery_calls (run_events example_config (signed_in_world hundred_per_page) 150 new_extractor)
     = [(0, 100), (1, 100)] \<and>
   fst (collect_ids example_config (signed_in_world hundred_per_page) 150 new_extractor)
     = Inr (take 150 (first_100 @ second_100)) \<and>
   fetcher_calls
     (run_events example_config (offline_from 1 (signed_in_world hundred_per_page)) 150
        new_extractor) = []"
proof -
  let ?s1 = "emit (Post_algolia ''app'' ''key'' 0 100)
               (emit (Call_fetchCompanyIds 0 100) new_extractor)"
  let ?s2 = "emit (Post_algolia ''app'' ''key'' 1 100)
               (emit (Call_fetchCompanyIds 1 100) (emit (Sleep 1000) ?s1))"
  let ?down = "JsError ''AxiosError'' ''Network Error''"
  let ?w = "signed_in_world hundred_per_page"
  have f0: "fetchCompanyIds example_config ?w 0 100 new_extractor = (Inr first_100, ?s1)"
    by code_simp
  have f1: "fetchCompanyIds example_config ?w 1 100 (emit (Sleep 1000) ?s1)
              = (Inr second_100, ?s2)"
    by code_simp
  have g0: "fetchCompanyIds example_config (offline_from 0 ?w) 0 100 new_extractor
              = (Inl ?down, ?s1)"
    by code_simp
  have h0: "fetchCompanyIds example_config (offline_from 1 ?w) 0 100 new_extractor
              = (Inr first_100, ?s1)"
    by code_simp
  have h1: "fetchCompanyIds example_config (offline_from 1 ?w) 1 100 (emit (Sleep 1000) ?s1)
              = (Inl ?down, ?s2)"
    by code_simp
  have k0: "fetchCompanyIds example_config (signed_in_world all_on_first_page) 0 100
              new_extractor = (Inr first_150, ?s1)"
    by code_simp
  have len: "length first_100 < 150" and full: "150 \<le> length first_150"
    by (simp_all add: first_100_def first_150_def)
  note small = discovery_pages_requested
    [where n = 3 and cfg = example_config and w = "signed_in_world three_ids"
       and s = new_extractor]
  note down = discovery_pages_requested
    [where cfg = example_config and w = "offline_from 0 ?w" and s = new_extractor
       and ?err0.0 = ?down and ?s1.0 = ?s1]
  note fills = discovery_pages_requested
    [where cfg = example_config and w = "signed_in_world all_on_first_page"
       and s = new_extractor and ?ids0.0 = first_150 and ?s1.0 = ?s1]
  note large = discovery_pages_requested
    [where cfg = example_config and w = ?w and s = new_extractor
       and ?ids0.0 = first_100 and ?s1.0 = ?s1 and ?ids1.0 = second_100 and ?s2.0 = ?s2]
  note late = discovery_pages_requested
    [where cfg = example_config and w = "offline_from 1 ?w" and s = new_extractor
       and ?ids0.0 = first_100 and ?s1.0 = ?s1 and ?err1.0 = ?down and ?s2.0 = ?s2]
  from small have
    "discovery_calls (run_events example_config (signed_in_world three_ids) 3 new_extractor)
       = [(0, 3)]"
    by simp
  moreover from down g0 have
    "discovery_calls (run_events example_config (offline_from 0 ?w) 150 new_extractor)
       = [(0, 100)]"
    "fst (extractData example_config (offline_from 0 ?w) 150 new_extractor) = Inl ?down"
    by blast+
  moreover from fills k0 full have
    "fst (collect_ids example_config (signed_in_world all_on_first_page) 150 new_extractor)
       = Inr (take 150 first_150)"
    by blast
  moreover from large f0 f1 len have
    "discovery_calls (run_events example_config ?w 150 new_extractor) = [(0, 100), (1, 100)]"
    "fst (collect_ids example_config ?w 150 new_extractor)
       = Inr (take 150 (first_100 @ second_100))"
    by blast+
  moreover from late h0 h1 len have
    "fetcher_calls (run_events example_config (offline_from 1 ?w) 150 new_extractor) = []"
    by blast
  ultimately show ?thesis
    using f0 g0 k0 len full by simp
qed

text \<open>
  The claim as the specification states it fails where the search index answers page 0
  with 150 identifiers: the loop condition \<open>allCompanyIds.length < maxCompanies\<close> ends
  discovery after one page.
\<close>

theorem one_page_for_150_when_first_page_fills:
  "discovery_calls (run_events example_config (signed_in_world all_on_first_page) 150 new_extractor)
     = [(0, 100)] \<and>
   discovery_calls (run_events example_config (signed_in_world all_on_first_page) 150 new_extractor)
     \<noteq> [(0, 100), (1, 100)]"
  by code_simp

text \<open>
  C5.  In one run of \<open>extractData\<close>, either \<open>login\<close> is not called, the session is not
  assigned, the session at the end is the one at the start and, if there was none at the
  start, the Fetcher is not called; or the run started without a session and its events
  are: discovery events only, then the first call of the Fetcher, then the call of
  \<open>login\<close> at once, then the requests of \<open>login\<close> with at most one assignment of the
  session, then events among which \<open>login\<close> is not called and the session is not assigned
  again; the session at the end is the one assigned, if any.
  So a run that starts without a session acquires it at the first Fetcher invocation,
  not before and not later, \<open>login\<close> occurs at most once, and a session that is set is
  kept to the end of the run.
\<close>

theorem session_acquired_lazily_once:
  "(Call_login \<notin> set (run_events cfg w n s) \<and>
    session_assignments (run_events cfg w n s) = [] \<and>
    session (snd (extractData cfg w n s)) = session s \<and>
    (session s = None \<longrightarrow> fetcher_calls (run_events cfg w n s) = []))
   \<or>
   (session s = None \<and>
    (\<exists>d b a rest.
       run_events cfg w n s = d @ Call_fetchCompanyDetails b # Call_login # a @ rest \<and>
       (\<forall>e \<in> set d. discovery_event e) \<and>
       (\<forall>e \<in> set a. inside_login e) \<and>
       length (session_assignments a) \<le> 1 \<and>
       Call_login \<notin> set rest \<and> session_assignments rest = [] \<and>
       session (snd (extractData cfg w n s))
         = (case session_assignments a of [] \<Rightarrow> None | x # _ \<Rightarrow> Some x)))"
  (is "?A \<or> ?B")
proof -
  obtain r1 s1 where c: "collect_ids cfg w n s = (r1, s1)"
    by (cases "collect_ids cfg w n s")
  from collect_ids_effect [OF c] obtain d where
    d: "trace s1 = trace s @ d" "\<forall>e \<in> set d. discovery_event e" "session s1 = session s"
    by blast
  note nd = discovery_event_no_fetcher [OF d(2)]
  have quiet: ?A if "extractData cfg w n s = (r, s1)" for r
    using that d nd by (simp add: run_events_def)
  show ?thesis
  proof (cases r1)
    case (Inl err)
    with c have "extractData cfg w n s = (Inl err, s1)"
      by (simp add: extractData_def)
    from quiet [OF this] show ?thesis ..
  next
    case (Inr ids)
    show ?thesis
    proof (cases "ids = []")
      case True
      with c Inr have "extractData cfg w n s = (Inr [], s1)"
        by (simp add: extractData_def)
      from quiet [OF this] show ?thesis ..
    next
      case False
      obtain r2 s2 where b: "batch_loop cfg w ids 0 [] s1 = (r2, s2)"
        by (cases "batch_loop cfg w ids 0 [] s1")
      from c Inr False b have fin: "snd (extractData cfg w n s) = s2"
        by (auto simp: extractData_def split: sum.splits)
      show ?thesis
      proof (cases "session s")
        case (Some x)
        with d have "session s1 = Some x" by simp
        from batch_loop_with_session [OF this b] obtain f where
          f: "trace s2 = trace s1 @ f" "Call_login \<notin> set f" "session_assignments f = []"
             "session s2 = Some x"
          by blast
        with d nd fin Some have ?A
          by (simp add: run_events_def)
        then show ?thesis ..
      next
        case None
        with d have n1: "session s1 = None" by simp
        let ?b = "slice ids 0 (0 + batchSize)"
        obtain r3 s3 where f: "fetchCompanyDetails cfg w ?b s1 = (r3, s3)"
          by (cases "fetchCompanyDetails cfg w ?b s1")
        from first_fetch_without_session [OF n1 f] obtain a p where
          ap: "trace s3 = trace s1 @ Call_fetchCompanyDetails ?b # Call_login # a @ p"
              "\<forall>e \<in> set a. inside_login e" "length (session_assignments a) \<le> 1"
              "Call_login \<notin> set p" "session_assignments p = []"
              "session s3 = (case session_assignments a of [] \<Rightarrow> None | x # _ \<Rightarrow> Some x)"
              "\<not> isl r3 \<longrightarrow> session s3 \<noteq> None"
          by blast
        have "\<exists>rest. trace s2 = trace s1 @ Call_fetchCompanyDetails ?b # Call_login # a @ rest \<and>
                Call_login \<notin> set rest \<and> session_assignments rest = [] \<and>
                session s2 = session s3"
        proof (cases r3)
          case (Inl err)
          with b f False have "s2 = s3"
            by (auto simp: batch_loop.simps [of cfg w ids 0 "[]" s1])
          with ap show ?thesis by blast
        next
          case (Inr cs)
          let ?s4 = "if 0 + batchSize < length ids then emit (Sleep 2000) s3 else s3"
          let ?sl = "if 0 + batchSize < length ids then [Sleep 2000] else []"
          from b f False Inr
          have rec: "batch_loop cfg w ids (0 + batchSize) ([] @ cs) ?s4 = (r2, s2)"
            by (simp add: batch_loop.simps [of cfg w ids 0 "[]" s1])
          from ap(7) Inr obtain x where x: "session s3 = Some x" by auto
          then have s4: "session ?s4 = Some x" "trace ?s4 = trace s3 @ ?sl" by simp_all
          from batch_loop_with_session [OF s4(1) rec] obtain evs2 where
            e2: "trace s2 = trace ?s4 @ evs2" "Call_login \<notin> set evs2"
                "session_assignments evs2 = []" "session s2 = Some x"
            by blast
          have "trace s2 = trace s1 @ Call_fetchCompanyDetails ?b # Call_login # a @ (p @ ?sl @ evs2)"
            using ap(1) e2(1) s4(2) by simp
          moreover have "Call_login \<notin> set (p @ ?sl @ evs2)"
            "session_assignments (p @ ?sl @ evs2) = []"
            using ap(4,5) e2(2,3) by auto
          ultimately show ?thesis
            using e2(4) x by metis
        qed
        then obtain rest where
          rest: "trace s2 = trace s1 @ Call_fetchCompanyDetails ?b # Call_login # a @ rest"
                "Call_login \<notin> set rest" "session_assignments rest = []"
                "session s2 = session s3"
          by blast
        have "run_events cfg w n s = d @ Call_fetchCompanyDetails ?b # Call_login # a @ rest"
          using rest(1) d(1) fin by (simp add: run_events_def)
        with None d(2) ap(2,3,6) rest(2,3,4) fin have ?B
          by (intro conjI exI [of _ d] exI [of _ ?b] exI [of _ a] exI [of _ rest]) simp_all
        then show ?thesis ..
      qed
    qed
  qed
qed

theorem session_acquired_lazily_once_witness:
  "Call_login \<in> set (run_events example_config (signed_in_world three_ids) 3 new_extractor) \<and>
   session new_extractor = None \<and>
   take 4 (run_events example_config (signed_in_world three_ids) 3 new_extractor)
     = [Call_fetchCompanyIds 0 3, Post_algolia ''app'' ''key'' 0 3,
        Call_fetchCompanyDetails [1, 2, 3], Call_login] \<and>
   session_assignments (run_events example_config (signed_in_world three_ids) 3 new_extractor)
     = [\<lparr>cookies = ''sid=1; sid=1; sid=1'', csrfToken = ''tok''\<rparr>] \<and>
   session (snd (extractData example_config (signed_in_world three_ids) 3 new_extractor))
     = Some \<lparr>cookies = ''sid=1; sid=1; sid=1'', csrfToken = ''tok''\<rparr> \<and>
   Call_login \<notin> set (run_events example_config (signed_in_world three_ids) 0 new_extractor) \<and>
   fetcher_calls (run_events example_config (signed_in_world three_ids) 0 new_extractor) = []"
proof -
  have run: "Call_login \<in> set (run_events example_config (signed_in_world three_ids) 3 new_extractor)"
    "take 4 (run_events example_config (signed_in_world three_ids) 3 new_extractor)
     = [Call_fetchCompanyIds 0 3, Post_algolia ''app'' ''key'' 0 3,
        Call_fetchCompanyDetails [1, 2, 3], Call_login]"
    "session_assignments (run_events example_config (signed_in_world three_ids) 3 new_extractor)
     = [\<lparr>cookies = ''sid=1; sid=1; sid=1'', csrfToken = ''tok''\<rparr>]"
    "session (snd (extractData example_config (signed_in_world three_ids) 3 new_extractor))
     = Some \<lparr>cookies = ''sid=1; sid=1; sid=1'', csrfToken = ''tok''\<rparr>"
    by code_simp+
  have idle: "Call_login \<notin> set (run_events example_config (signed_in_world three_ids) 0 new_extractor)"
    by code_simp
  from session_acquired_lazily_once
         [of example_config "signed_in_world three_ids" 3 new_extractor] run(1)
  have none: "session new_extractor = None"
    by blast
  from session_acquired_lazily_once
         [of example_config "signed_in_world three_ids" 0 new_extractor] idle none
  have "fetcher_calls (run_events example_config (signed_in_world three_ids) 0 new_extractor) = []"
    by auto
  with run idle none show ?thesis by simp
qed




text \<open>
  C7.  The delay of the discovery loop is guarded by \<open>page < numPages - 1\<close> alone, so it
  is taken after every page before the last page index, whether or not another discovery
  call follows.  Where page 0 is answered with at least \<open>targetCount\<close> identifiers
  (\<open>targetCount\<close> above 100), discovery stops after that call, and the 1000 ms delay has
  already been taken after it: the first three events of the run are the call, its
  request and the delay, and no discovery call comes after them.
\<close>

theorem delay_after_final_discovery_call:
  "take 3 (run_events example_config (signed_in_world all_on_first_page) 150 new_extractor)
     = [Call_fetchCompanyIds 0 100, Post_algolia ''app'' ''key'' 0 100, Sleep 1000] \<and>
   discovery_calls
     (drop 3 (run_events example_config (signed_in_world all_on_first_page) 150 new_extractor))
     = []"
  by code_simp

text \<open>
  C8, as the code has it.  \<open>configSchema.parse\<close> fails exactly when one of the four
  variables is absent, and a configuration it returns carries the four values of the
  environment as they are; an empty string is accepted.
\<close>

theorem configSchema_parse_present:
  "((\<exists>issues. configSchema_parse env = Inl issues) \<longleftrightarrow> (\<exists>k \<in> set schema_keys. env k = None)) \<and>
   (\<forall>cfg. configSchema_parse env = Inr cfg \<longrightarrow>
      env ''YC_USERNAME'' = Some (YC_USERNAME cfg) \<and> env ''YC_PASSWORD'' = Some (YC_PASSWORD cfg) \<and>
      env ''ALGOLIA_APP_ID'' = Some (ALGOLIA_APP_ID cfg) \<and>
      env ''ALGOLIA_API_KEY'' = Some (ALGOLIA_API_KEY cfg))"
  by (auto simp: configSchema_parse_def z_string_def schema_keys_def split: option.splits)

theorem configSchema_parse_present_witness:
  "''ALGOLIA_API_KEY'' \<in> set schema_keys \<and> env_missing_key ''ALGOLIA_API_KEY'' = None \<and>
   configSchema_parse env_missing_key = Inl [(''ALGOLIA_API_KEY'', ''Required'')]"
proof -
  have a: "''ALGOLIA_API_KEY'' \<in> set schema_keys" "env_missing_key ''ALGOLIA_API_KEY'' = None"
    by (simp_all add: schema_keys_def env_missing_key_def)
  with configSchema_parse_present [of env_missing_key]
  obtain issues where i: "configSchema_parse env_missing_key = Inl issues"
    by blast
  have "configSchema_parse env_missing_key = Inl [(''ALGOLIA_API_KEY'', ''Required'')]"
    by code_simp
  with a show ?thesis by simp
qed

theorem empty_password_accepted:
  "env_empty_password ''YC_PASSWORD'' = Some [] \<and>
   configSchema_parse env_empty_password
     = Inr \<lparr>YC_USERNAME = ''user'', YC_PASSWORD = [],
            ALGOLIA_APP_ID = ''app'', ALGOLIA_API_KEY = ''key''\<rparr>"
  by code_simp

text \<open>
  C9.  Every identifier list that a run of \<open>extractData\<close> passes to the Fetcher is
  non-empty and has at most 20 elements.
\<close>

theorem fetcher_batches_nonempty_at_most_20:
  "\<forall>b \<in> set (fetcher_calls (run_events cfg w n s)). b \<noteq> [] \<and> length b \<le> 20"
proof -
  obtain r1 s1 where c: "collect_ids cfg w n s = (r1, s1)"
    by (cases "collect_ids cfg w n s")
  from run_events_split [OF c] obtain d f k where
    r: "run_events cfg w n s = d @ f" "\<forall>e \<in> set d. discovery_event e"
       "case r1 of Inl err \<Rightarrow> f = []
        | Inr ids \<Rightarrow> fetcher_calls f = take k (consecutive_batches batchSize ids) \<and>
            (\<not> isl (fst (extractData cfg w n s)) \<longrightarrow>
               fetcher_calls f = consecutive_batches batchSize ids)"
    by blast
  from discovery_event_no_fetcher [OF r(2)] r(1)
  have fc: "fetcher_calls (run_events cfg w n s) = fetcher_calls f" by simp
  show ?thesis
  proof (cases r1)
    case (Inl err)
    with r(3) fc show ?thesis by simp
  next
    case (Inr ids)
    with r(3) fc have "set (fetcher_calls (run_events cfg w n s))
                        \<subseteq> set (consecutive_batches batchSize ids)"
      by (auto dest: in_set_takeD)
    with consecutive_batches_bounds [of _ batchSize ids] show ?thesis
      by (auto simp: batchSize_def)
  qed
qed

theorem fetcher_batches_nonempty_at_most_20_witness:
  "map int [40 ..< 45]
     \<in> set (fetcher_calls (run_events example_config (signed_in_world forty_five) 45 new_extractor)) \<and>
   map int [40 ..< 45] \<noteq> [] \<and> length (map int [40 ..< 45]) \<le> 20"
proof -
  have m: "map int [40 ..< 45]
     \<in> set (fetcher_calls (run_events example_config (signed_in_world forty_five) 45 new_extractor))"
    by code_simp
  with fetcher_batches_nonempty_at_most_20
         [of example_config "signed_in_world forty_five" 45 new_extractor]
  show ?thesis by blast
qed

text \<open>
  C10.  For every record whose \<open>jobs\<close> property is absent or \<open>null\<close>, the Formatter
  produces an output record, at the record's position, whose \<open>jobs\<close> list is empty.
\<close>

theorem formatCompanyData_jobs_absent:
  "i < length cs \<Longrightarrow> c_jobs (cs ! i) = Undefined \<or> c_jobs (cs ! i) = Null \<Longrightarrow>
   length (formatCompanyData cs) = length cs \<and> o_jobs (formatCompanyData cs ! i) = []"
  by (auto simp: formatCompanyData_def)

theorem formatCompanyData_jobs_absent_witness:
  "(1::nat) < length [acme, null_jobs_company] \<and>
   c_jobs ([acme, null_jobs_company] ! 1) = Null \<and>
   length (formatCompanyData [acme, null_jobs_company]) = 2 \<and>
   o_jobs (formatCompanyData [acme, null_jobs_company] ! 1) = []"
proof -
  have a: "(1::nat) < length [acme, null_jobs_company]"
    and b: "c_jobs ([acme, null_jobs_company] ! 1) = Null"
    by (simp_all add: null_jobs_company_def plain_company_def)
  from formatCompanyData_jobs_absent [OF a disjI2 [OF b]] a b show ?thesis
    by simp
qed

end
